theory Spec2Isabelle
  imports Complex_Main
begin

section \<open>Symbolic expressions\<close>

text \<open>
  Modelled from the spec: the expressions of the computer-algebra library (sympy), out of
  which the program (\<^verbatim>\<open>metric.py\<close>) builds its metrics; the library is not under the
  source tree. An expression is the tagged value of section 3 of the specification:
  \<^verbatim>\<open>Constant\<close>, \<^verbatim>\<open>Symbol\<close>, \<^verbatim>\<open>Add\<close>, \<^verbatim>\<open>Mul\<close>, \<^verbatim>\<open>Pow\<close>, \<^verbatim>\<open>Neg\<close>, \<^verbatim>\<open>Sin\<close>,
  \<^verbatim>\<open>Cos\<close>; and \<^verbatim>\<open>Log\<close>, the natural logarithm of the library, which the derivative of a
  power needs when its exponent is not a constant. A symbol is modelled by its name: the program creates all its symbols
  without assumptions, and two such symbols of the same name are the same symbol in the
  library. Symbols created with assumptions (which the library tells apart from the plain
  symbol of the same name) are outside the model.
\<close>

type_synonym symbol = string

datatype expr =
    Constant real
  | Symbol symbol
  | Add "expr list"
  | Mul "expr list"
  | Pow expr expr
  | Neg expr
  | Sin expr
  | Cos expr
  | Log expr

text \<open>
  The value of an expression at a point (an assignment of reals to the symbols). Two
  expressions are equal in value when they evaluate to the same real at every point; the
  floating-point constants \<^verbatim>\<open>Float(0)\<close> and \<^verbatim>\<open>1.0/2.0\<close> of the program denote the exact
  numbers 0 and 1/2. A power with an integral exponent is the integer power (so that
  \<^verbatim>\<open>x**(-1)\<close> is the reciprocal also of a negative \<open>x\<close>). The evaluation is total: the
  reciprocal of 0 is 0, as everywhere in HOL; the statement about the inverse below assumes
  a nonzero determinant.
\<close>

definition pow_value :: "real \<Rightarrow> real \<Rightarrow> real" where
  "pow_value x y = (if of_int \<lfloor>y\<rfloor> = y then x powi \<lfloor>y\<rfloor> else x powr y)"

fun eval :: "(symbol \<Rightarrow> real) \<Rightarrow> expr \<Rightarrow> real" where
  "eval env (Constant c) = c"
| "eval env (Symbol s) = env s"
| "eval env (Add es) = sum_list (map (eval env) es)"
| "eval env (Mul es) = prod_list (map (eval env) es)"
| "eval env (Pow b k) = pow_value (eval env b) (eval env k)"
| "eval env (Neg e) = - eval env e"
| "eval env (Sin e) = sin (eval env e)"
| "eval env (Cos e) = cos (eval env e)"
| "eval env (Log e) = ln (eval env e)"

subsection \<open>The arithmetic operators of the program\<close>

text \<open>
  The Python operators \<^verbatim>\<open>+\<close>, \<^verbatim>\<open>-\<close>, \<^verbatim>\<open>*\<close>, \<^verbatim>\<open>/\<close>, \<^verbatim>\<open>**\<close> and unary minus on
  expressions build the corresponding nodes; a difference is a sum with a negated term and
  a quotient a product with a reciprocal.
\<close>

definition py_add :: "expr \<Rightarrow> expr \<Rightarrow> expr" where
  "py_add a b = Add [a, b]"

definition py_sub :: "expr \<Rightarrow> expr \<Rightarrow> expr" where
  "py_sub a b = Add [a, Neg b]"

definition py_mul :: "expr \<Rightarrow> expr \<Rightarrow> expr" where
  "py_mul a b = Mul [a, b]"

definition py_div :: "expr \<Rightarrow> expr \<Rightarrow> expr" where
  "py_div a b = Mul [a, Pow b (Constant (- 1))]"

definition py_pow :: "expr \<Rightarrow> expr \<Rightarrow> expr" where
  "py_pow a b = Pow a b"

subsection \<open>Differentiation\<close>

text \<open>
  Modelled from the spec: \<^verbatim>\<open>sympy.diff\<close>, the differentiation of the algebra library,
  which is not under the source tree. The rules are those of section 4.1: a constant has
  derivative 0, a symbol 1 or 0, a sum is differentiated termwise, a product by the
  generalised product rule (the sum, over the factors, of the product with that one
  factor replaced by its derivative), a power with a constant exponent by the power rule
  \<open>k * b ** (k - 1) * db/dx\<close>, sine and cosine by the chain rule. The specification gives
  no rule for a power whose exponent is not a constant; there the derivative is the
  library's, \<open>b ** k * (dk/dx * log b + k * db/dx / b)\<close>, and that of a logarithm is
  \<open>du/dx / u\<close>. No simplification is done.
\<close>

fun product_rule :: "expr list \<Rightarrow> (expr \<times> expr) list \<Rightarrow> expr list" where
  "product_rule before [] = []"
| "product_rule before ((e, de) # rest) =
     Mul (before @ [de] @ map fst rest) # product_rule (before @ [e]) rest"

fun differentiate :: "expr \<Rightarrow> symbol \<Rightarrow> expr" where
  "differentiate (Constant c) x = Constant 0"
| "differentiate (Symbol s) x = (if s = x then Constant 1 else Constant 0)"
| "differentiate (Add es) x = Add (map (\<lambda>e. differentiate e x) es)"
| "differentiate (Mul es) x =
     Add (product_rule [] (map (\<lambda>e. (e, differentiate e x)) es))"
| "differentiate (Pow b (Constant c)) x =
     Mul [Constant c, Pow b (Add [Constant c, Constant (- 1)]), differentiate b x]"
| "differentiate (Pow b k) x =
     Mul [Pow b k,
          Add [Mul [differentiate k x, Log b],
               Mul [k, differentiate b x, Pow b (Constant (- 1))]]]"
| "differentiate (Neg e) x = Neg (differentiate e x)"
| "differentiate (Sin e) x = Mul [Cos e, differentiate e x]"
| "differentiate (Cos e) x = Mul [Neg (Sin e), differentiate e x]"
| "differentiate (Log e) x = Mul [differentiate e x, Pow e (Constant (- 1))]"

section \<open>Errors and indexing\<close>

text \<open>
  The exceptions the program can raise: an index out of range (of a Python list or of a
  matrix), a matrix that is not square or not invertible (raised by the inversion), and a
  key that is missing from a dictionary.
\<close>

datatype error = IndexError | NonSquareMatrix | SingularMatrix | KeyError

text \<open>
  Indexing a Python list \<^verbatim>\<open>xs[i]\<close>: a negative index counts from the end, and an index
  outside \<open>[-len, len)\<close> raises \<^verbatim>\<open>IndexError\<close>.
\<close>

definition py_index :: "'a list \<Rightarrow> int \<Rightarrow> error + 'a" where
  "py_index xs i =
     (if 0 \<le> i \<and> i < int (length xs) then Inr (xs ! nat i)
      else if - int (length xs) \<le> i \<and> i < 0 then Inr (xs ! nat (i + int (length xs)))
      else Inl IndexError)"

text \<open>
  A matrix is the list of its rows. Indexing a matrix of the library, \<^verbatim>\<open>M[i, j]\<close>, treats
  each of the two indices as a list index is treated: a negative index has the number of
  rows (of columns) added to it, and an index then out of range raises \<^verbatim>\<open>IndexError\<close>.
\<close>

type_synonym matrix = "expr list list"

definition mat_index :: "matrix \<Rightarrow> int \<Rightarrow> int \<Rightarrow> error + expr" where
  "mat_index M i j =
     (case py_index M i of
        Inl e \<Rightarrow> Inl e
      | Inr row \<Rightarrow> py_index row j)"

definition square :: "matrix \<Rightarrow> bool" where
  "square M = list_all (\<lambda>row. length row = length M) M"

section \<open>Determinant and inverse\<close>

text \<open>
  Modelled from the spec: \<^verbatim>\<open>Matrix.inv\<close>, the matrix inversion of the algebra library,
  which is not under the source tree. Section 4.2: the determinant is the Laplace
  expansion along the first row, with the 1 x 1 and 2 x 2 matrices as base cases; the
  inverse is the adjugate divided by the determinant, entry by entry, where the entry
  \<open>(i, j)\<close> of the adjugate is the cofactor \<open>(j, i)\<close>, the signed determinant of the
  matrix without row \<open>j\<close> and column \<open>i\<close>. The inversion fails when the matrix is not
  square, and with the singular-matrix condition when the determinant is the zero
  expression. What counts as the zero expression is decided by the zero test of the
  library (the argument \<^verbatim>\<open>iszerofunc\<close> of \<^verbatim>\<open>inv\<close>, left at its default by the program):
  it is the parameter \<open>iszerofunc\<close> of the model.
\<close>

definition remove_nth :: "nat \<Rightarrow> 'a list \<Rightarrow> 'a list" where
  "remove_nth k xs = take k xs @ drop (Suc k) xs"

definition minor_matrix :: "matrix \<Rightarrow> nat \<Rightarrow> nat \<Rightarrow> matrix" where
  "minor_matrix M i j = map (remove_nth j) (remove_nth i M)"

fun determinant :: "matrix \<Rightarrow> expr" where
  "determinant [] = Constant 1"
| "determinant [[a]] = a"
| "determinant [[a, b], [c, d]] = Add [Mul [a, d], Neg (Mul [b, c])]"
| "determinant (r # rs) =
     Add (map (\<lambda>j. Mul [Constant ((- 1) ^ j), r ! j, determinant (map (remove_nth j) rs)])
            [0..<length r])"

definition cofactor :: "matrix \<Rightarrow> nat \<Rightarrow> nat \<Rightarrow> expr" where
  "cofactor M i j = Mul [Constant ((- 1) ^ (i + j)), determinant (minor_matrix M i j)]"

definition adjugate :: "matrix \<Rightarrow> matrix" where
  "adjugate M = map (\<lambda>i. map (\<lambda>j. cofactor M j i) [0..<length M]) [0..<length M]"

definition inverse_matrix :: "(expr \<Rightarrow> bool) \<Rightarrow> matrix \<Rightarrow> error + matrix" where
  "inverse_matrix iszerofunc M =
     (if \<not> square M then Inl NonSquareMatrix
      else let d = determinant M
           in if iszerofunc d then Inl SingularMatrix
              else Inr (map (map (\<lambda>a. py_div a d)) (adjugate M)))"

text \<open>The syntactic zero test: an expression is zero when it is the constant 0.\<close>

definition syntactic_zero :: "expr \<Rightarrow> bool" where
  "syntactic_zero e = (e = Constant 0)"

section \<open>The class \<^verbatim>\<open>Metric\<close>\<close>

text \<open>
  The fields of a \<^verbatim>\<open>Metric\<close> object. Coordinates and velocities are symbols; where the
  program uses one as a factor of a product it is the expression \<open>Symbol s\<close>.
\<close>

record metric =
  g :: matrix
  g_inv :: matrix
  coordinates :: "symbol list"
  dim :: nat
  velocities :: "symbol list"
  geodesic_rhs :: "expr list"

text \<open>
  A \<^verbatim>\<open>for\<close> loop over a list that carries one variable (\<^verbatim>\<open>result\<close>) and stops at the
  first exception; and a list comprehension whose element may raise.
\<close>

fun for_loop :: "('s \<Rightarrow> 'a \<Rightarrow> error + 's) \<Rightarrow> 's \<Rightarrow> 'a list \<Rightarrow> error + 's" where
  "for_loop body s [] = Inr s"
| "for_loop body s (x # xs) =
     (case body s x of
        Inl e \<Rightarrow> Inl e
      | Inr s' \<Rightarrow> for_loop body s' xs)"

fun comprehension :: "('a \<Rightarrow> error + 'b) \<Rightarrow> 'a list \<Rightarrow> error + 'b list" where
  "comprehension f [] = Inr []"
| "comprehension f (x # xs) =
     (case f x of
        Inl e \<Rightarrow> Inl e
      | Inr y \<Rightarrow> (case comprehension f xs of
                    Inl e \<Rightarrow> Inl e
                  | Inr ys \<Rightarrow> Inr (y # ys)))"

text \<open>\<^verbatim>\<open>range(n)\<close>: the Python integers \<open>0, ..., n - 1\<close>.\<close>

definition py_range :: "nat \<Rightarrow> int list" where
  "py_range n = map int [0..<n]"

text \<open>
  \<^verbatim>\<open>deriv(self, mu, nu, rho)\<close>: the entry \<^verbatim>\<open>g[mu, nu]\<close> differentiated with respect to
  \<^verbatim>\<open>coordinates[rho]\<close>. The matrix is indexed first, then the coordinate list.
\<close>

definition deriv :: "metric \<Rightarrow> int \<Rightarrow> int \<Rightarrow> int \<Rightarrow> error + expr" where
  "deriv self mu nu rho =
     (case mat_index (g self) mu nu of
        Inl e \<Rightarrow> Inl e
      | Inr entry \<Rightarrow>
          (case py_index (coordinates self) rho of
             Inl e \<Rightarrow> Inl e
           | Inr x \<Rightarrow> Inr (differentiate entry x)))"

text \<open>
  One round of the loop of \<^verbatim>\<open>compute_christoffel\<close>:
  \<^verbatim>\<open>result += 1.0/2.0*self.g_inv[mu, nu]*(self.deriv(nu, rho, sigma) + self.deriv(nu, sigma, rho) - self.deriv(rho, sigma, nu))\<close>,
  its operands evaluated from left to right.
\<close>

definition christoffel_body ::
  "metric \<Rightarrow> int \<Rightarrow> int \<Rightarrow> int \<Rightarrow> expr \<Rightarrow> int \<Rightarrow> error + expr" where
  "christoffel_body self mu rho sigma result nu =
     (case mat_index (g_inv self) mu nu of
        Inl e \<Rightarrow> Inl e
      | Inr gi \<Rightarrow>
     (case deriv self nu rho sigma of
        Inl e \<Rightarrow> Inl e
      | Inr d1 \<Rightarrow>
     (case deriv self nu sigma rho of
        Inl e \<Rightarrow> Inl e
      | Inr d2 \<Rightarrow>
     (case deriv self rho sigma nu of
        Inl e \<Rightarrow> Inl e
      | Inr d3 \<Rightarrow>
          Inr (py_add result
                 (py_mul (py_mul (Constant (1 / 2)) gi) (py_sub (py_add d1 d2) d3)))))))"

definition compute_christoffel :: "metric \<Rightarrow> int \<Rightarrow> int \<Rightarrow> int \<Rightarrow> error + expr" where
  "compute_christoffel self mu rho sigma =
     for_loop (christoffel_body self mu rho sigma) (Constant 0) (py_range (dim self))"

text \<open>
  The inner statement of \<^verbatim>\<open>compute_geodesic_rhs\<close>:
  \<^verbatim>\<open>result -= self.compute_christoffel(mu, rho, sigma)*self.velocities[rho]*self.velocities[sigma]\<close>.
\<close>

definition geodesic_body ::
  "metric \<Rightarrow> int \<Rightarrow> int \<Rightarrow> expr \<Rightarrow> int \<Rightarrow> error + expr" where
  "geodesic_body self mu rho result sigma =
     (case compute_christoffel self mu rho sigma of
        Inl e \<Rightarrow> Inl e
      | Inr c \<Rightarrow>
     (case py_index (velocities self) rho of
        Inl e \<Rightarrow> Inl e
      | Inr u_rho \<Rightarrow>
     (case py_index (velocities self) sigma of
        Inl e \<Rightarrow> Inl e
      | Inr u_sigma \<Rightarrow>
          Inr (py_sub result (py_mul (py_mul c (Symbol u_rho)) (Symbol u_sigma))))))"

definition compute_geodesic_rhs :: "metric \<Rightarrow> int \<Rightarrow> error + expr" where
  "compute_geodesic_rhs self mu =
     for_loop
       (\<lambda>result rho. for_loop (geodesic_body self mu rho) result (py_range (dim self)))
       (Constant 0) (py_range (dim self))"

text \<open>
  The constructor \<^verbatim>\<open>Metric.__init__(self, g, coordinates)\<close>. The inverse is computed
  first; an exception there, or in any of the geodesic right-hand sides, leaves no object.
  The right-hand sides are computed on the object as it is before the field
  \<^verbatim>\<open>geodesic_rhs\<close> is assigned (the methods do not read that field).
\<close>

definition Metric_init :: "(expr \<Rightarrow> bool) \<Rightarrow> matrix \<Rightarrow> symbol list \<Rightarrow> error + metric" where
  "Metric_init iszerofunc g0 coordinates0 =
     (case inverse_matrix iszerofunc g0 of
        Inl e \<Rightarrow> Inl e
      | Inr gi \<Rightarrow>
          (let self = \<lparr>g = g0, g_inv = gi, coordinates = coordinates0,
                       dim = length coordinates0,
                       velocities = [''u0'', ''u1'', ''u2'', ''u3''],
                       geodesic_rhs = []\<rparr>
           in case comprehension (compute_geodesic_rhs self) (py_range (dim self)) of
                Inl e \<Rightarrow> Inl e
              | Inr rhs \<Rightarrow> Inr (self\<lparr>geodesic_rhs := rhs\<rparr>)))"

section \<open>The presets: \<^verbatim>\<open>getMetric\<close>\<close>

definition num :: "int \<Rightarrow> expr" where
  "num k = Constant (of_int k)"

definition kerr_sigma :: expr where
  "kerr_sigma =
     py_add (py_pow (Symbol ''r'') (num 2))
            (py_mul (py_pow (Symbol ''a'') (num 2)) (py_pow (Cos (Symbol ''theta'')) (num 2)))"

definition kerr_delta :: expr where
  "kerr_delta =
     py_add (py_sub (py_pow (Symbol ''r'') (num 2))
                    (py_mul (py_mul (num 2) (Symbol ''M'')) (Symbol ''r'')))
            (py_pow (Symbol ''a'') (num 2))"

text \<open>
  \<^verbatim>\<open>-2*a*M*r/sigma*sympy.sin(theta)**2\<close>, read as Python reads it:
  \<^verbatim>\<open>((((-2)*a)*M)*r/sigma)*(sin(theta)**2)\<close>.
\<close>

definition kerr_g03 :: expr where
  "kerr_g03 =
     py_mul
       (py_div (py_mul (py_mul (py_mul (num (- 2)) (Symbol ''a'')) (Symbol ''M'')) (Symbol ''r''))
               kerr_sigma)
       (py_pow (Sin (Symbol ''theta'')) (num 2))"

definition kerr_g :: matrix where
  "kerr_g =
     [[Neg (py_sub (num 1)
              (py_div (py_mul (py_mul (num 2) (Symbol ''M'')) (Symbol ''r'')) kerr_sigma)),
       num 0, num 0, kerr_g03],
      [num 0, py_div kerr_sigma kerr_delta, num 0, num 0],
      [num 0, num 0, kerr_sigma, num 0],
      [kerr_g03, num 0, num 0,
       py_mul
         (py_add (py_add (py_pow (Symbol ''r'') (num 2)) (py_pow (Symbol ''a'') (num 2)))
            (py_mul
               (py_div (py_mul (py_mul (py_mul (num 2) (Symbol ''M'')) (Symbol ''r''))
                               (py_pow (Symbol ''a'') (num 2)))
                       kerr_sigma)
               (py_pow (Sin (Symbol ''theta'')) (num 2))))
         (py_pow (Sin (Symbol ''theta'')) (num 2))]]"

definition schwarzschild_g :: matrix where
  "schwarzschild_g =
     [[Neg (py_sub (num 1) (py_div (py_mul (num 2) (Symbol ''M'')) (Symbol ''r''))),
       num 0, num 0, num 0],
      [num 0,
       py_pow (py_sub (num 1) (py_div (py_mul (num 2) (Symbol ''M'')) (Symbol ''r'')))
              (num (- 1)),
       num 0, num 0],
      [num 0, num 0, py_pow (Symbol ''r'') (num 2), num 0],
      [num 0, num 0, num 0,
       py_mul (py_pow (Symbol ''r'') (num 2)) (py_pow (Sin (Symbol ''theta'')) (num 2))]]"

text \<open>
  \<^verbatim>\<open>getMetric(name)\<close>: both metrics are constructed, then the dictionary is built and
  the name looked up in it; a name that is not a key raises \<^verbatim>\<open>KeyError\<close>.
\<close>

definition getMetric :: "(expr \<Rightarrow> bool) \<Rightarrow> string \<Rightarrow> error + metric \<times> symbol list" where
  "getMetric iszerofunc name =
     (let coordinates0 = [''t'', ''r'', ''theta'', ''phi'']
      in case Metric_init iszerofunc kerr_g coordinates0 of
           Inl e \<Rightarrow> Inl e
         | Inr kerr \<Rightarrow>
             (case Metric_init iszerofunc schwarzschild_g coordinates0 of
                Inl e \<Rightarrow> Inl e
              | Inr schwarzschild \<Rightarrow>
                  (case map_of
                          [(''kerr'', (kerr, [''t'', ''r'', ''theta'', ''phi'', ''M'', ''a''])),
                           (''schwarzschild'',
                            (schwarzschild, [''t'', ''r'', ''theta'', ''phi'', ''M'']))]
                          name of
                     None \<Rightarrow> Inl KeyError
                   | Some entry \<Rightarrow> Inr entry)))"

section \<open>Notions used in the statements\<close>

text \<open>
  An index \<open>i\<close> is accepted by a sequence of length \<open>n\<close> when it lies in
  \<open>[-n, n)\<close>; \<open>wrap n i\<close> is the position it addresses.
\<close>

definition index_ok :: "nat \<Rightarrow> int \<Rightarrow> bool" where
  "index_ok n i = (- int n \<le> i \<and> i < int n)"

definition wrap :: "nat \<Rightarrow> int \<Rightarrow> nat" where
  "wrap n i = nat (if i < 0 then i + int n else i)"

text \<open>
  The shape of a \<^verbatim>\<open>Metric\<close> object: both matrices square and of the same side, and
  \<open>dim\<close> the number of coordinates.
\<close>

definition shaped :: "metric \<Rightarrow> bool" where
  "shaped m = (square (g m) \<and> square (g_inv m) \<and> length (g_inv m) = length (g m)
     \<and> length (coordinates m) = dim m)"

text \<open>
  The summand of the Christoffel formula for one \<open>nu\<close>, evaluated at a point:
  \<open>g_inv[mu, nu] * (d_rho g[nu, sigma] + d_sigma g[nu, rho] - d_nu g[rho, sigma])\<close>.
\<close>

definition christoffel_term ::
  "metric \<Rightarrow> (symbol \<Rightarrow> real) \<Rightarrow> nat \<Rightarrow> nat \<Rightarrow> nat \<Rightarrow> nat \<Rightarrow> real" where
  "christoffel_term m env mu rho sigma nu =
     eval env (g_inv m ! mu ! nu) *
       (eval env (differentiate (g m ! nu ! sigma) (coordinates m ! rho))
        + eval env (differentiate (g m ! nu ! rho) (coordinates m ! sigma))
        - eval env (differentiate (g m ! rho ! sigma) (coordinates m ! nu)))"

text \<open>
  Test harness: the value, at a point, of the Christoffel symbol and of the entry
  \<^verbatim>\<open>geodesic_rhs[mu]\<close> queried on the result of a construction; and the point where every
  symbol is 0.
\<close>

definition christoffel_at ::
  "(symbol \<Rightarrow> real) \<Rightarrow> error + metric \<Rightarrow> int \<Rightarrow> int \<Rightarrow> int \<Rightarrow> error + real" where
  "christoffel_at env r mu rho sigma =
     (case r of
        Inl e \<Rightarrow> Inl e
      | Inr m \<Rightarrow>
          (case compute_christoffel m mu rho sigma of
             Inl e \<Rightarrow> Inl e
           | Inr c \<Rightarrow> Inr (eval env c)))"

definition geodesic_rhs_at ::
  "(symbol \<Rightarrow> real) \<Rightarrow> error + metric \<Rightarrow> int \<Rightarrow> error + real" where
  "geodesic_rhs_at env r mu =
     (case r of
        Inl e \<Rightarrow> Inl e
      | Inr m \<Rightarrow>
          (case py_index (geodesic_rhs m) mu of
             Inl e \<Rightarrow> Inl e
           | Inr c \<Rightarrow> Inr (eval env c)))"

definition origin :: "symbol \<Rightarrow> real" where
  "origin s = 0"

text \<open>
  A sample point, away from the singularities of both presets: \<open>r = 1\<close>,
  \<open>theta = pi / 2\<close>, every other symbol 0.
\<close>

definition sample_point :: "symbol \<Rightarrow> real" where
  "sample_point s = (if s = ''r'' then 1 else if s = ''theta'' then pi / 2 else 0)"

section \<open>Determinants of real matrices\<close>

text \<open>
  The value of a determinant is studied on matrices of reals given as functions of the row
  and the column: \<open>det_fn n A\<close> is the Laplace expansion along the first row of the
  \<open>n\<close> x \<open>n\<close> matrix \<open>A\<close>, and \<open>minor_fn A i j\<close> is \<open>A\<close> without row \<open>i\<close> and column
  \<open>j\<close> (\<open>skip k\<close> renumbers the indices around the removed one). \<open>mat_fn env M\<close> is the
  matrix of the values of the entries of \<open>M\<close> at the point \<open>env\<close>.
\<close>

definition skip :: "nat \<Rightarrow> nat \<Rightarrow> nat" where
  "skip k r = (if r < k then r else Suc r)"

definition minor_fn :: "(nat \<Rightarrow> nat \<Rightarrow> real) \<Rightarrow> nat \<Rightarrow> nat \<Rightarrow> nat \<Rightarrow> nat \<Rightarrow> real" where
  "minor_fn A i j = (\<lambda>r c. A (skip i r) (skip j c))"

primrec det_fn :: "nat \<Rightarrow> (nat \<Rightarrow> nat \<Rightarrow> real) \<Rightarrow> real" where
  "det_fn 0 A = 1"
| "det_fn (Suc n) A = (\<Sum>j<Suc n. (- 1) ^ j * A 0 j * det_fn n (minor_fn A 0 j))"

definition mat_fn :: "(symbol \<Rightarrow> real) \<Rightarrow> matrix \<Rightarrow> nat \<Rightarrow> nat \<Rightarrow> real" where
  "mat_fn env M = (\<lambda>i j. eval env (M ! i ! j))"

text \<open>Exchanging the columns \<open>j\<close> and \<open>j + 1\<close>.\<close>

definition swap_index :: "nat \<Rightarrow> nat \<Rightarrow> nat" where
  "swap_index j c = (if c = j then Suc j else if c = Suc j then j else c)"

definition swap_cols :: "nat \<Rightarrow> (nat \<Rightarrow> nat \<Rightarrow> real) \<Rightarrow> nat \<Rightarrow> nat \<Rightarrow> real" where
  "swap_cols j A = (\<lambda>r c. A r (swap_index j c))"

section \<open>Indexing, loops and the shape of a constructed object\<close>

subsection \<open>Indexing with natural numbers\<close>

lemma py_index_int:
  "py_index xs (int i) = (if i < length xs then Inr (xs ! i) else Inl IndexError)"
  by (simp add: py_index_def)

lemma py_index_error: "py_index xs i = Inl e \<Longrightarrow> e = IndexError"
  by (auto simp: py_index_def Let_def split: if_splits)

lemma mat_index_int:
  "mat_index M (int i) (int j) = Inr v \<Longrightarrow> i < length M \<and> j < length (M ! i) \<and> v = M ! i ! j"
  by (auto simp: mat_index_def py_index_int split: if_splits sum.splits)

subsection \<open>Loops that return\<close>

lemma for_loop_eval:
  fixes ev :: "'s \<Rightarrow> real"
  assumes "\<And>s x r. x \<in> set xs \<Longrightarrow> body s x = Inr r \<Longrightarrow> ev r = ev s + f x"
    and "for_loop body s xs = Inr r"
  shows "ev r = ev s + sum_list (map f xs)"
  using assms
proof (induction xs arbitrary: s)
  case Nil
  then show ?case by simp
next
  case (Cons x xs)
  from Cons.prems(2) obtain s' where b: "body s x = Inr s'" and l: "for_loop body s' xs = Inr r"
    by (auto split: sum.splits)
  have "ev s' = ev s + f x" using Cons.prems(1) b by simp
  moreover have "ev r = ev s' + sum_list (map f xs)"
    using Cons.IH[OF _ l] Cons.prems(1) by simp
  ultimately show ?case by simp
qed

lemma for_loop_Inr_body:
  "for_loop body s xs = Inr r \<Longrightarrow> x \<in> set xs \<Longrightarrow> \<exists>s1 s2. body s1 x = Inr s2"
proof (induction xs arbitrary: s)
  case Nil
  then show ?case by simp
next
  case (Cons y ys)
  then show ?case by (auto split: sum.splits)
qed

lemma sum_list_py_range:
  "sum_list (map f (py_range n)) = (\<Sum>k<n. f (int k))"
  by (simp add: py_range_def comp_def interv_sum_list_conv_sum_set_nat atLeast0LessThan)

subsection \<open>Powers with a constant exponent\<close>

lemma pow_value_of_int: "pow_value x (of_int k) = x powi k"
  by (simp add: pow_value_def)

lemma pow_value_m1: "pow_value x (- 1) = inverse x"
  using pow_value_of_int[of x "- 1"] by simp

lemma pow_value_numeral: "pow_value x (numeral n) = x ^ numeral n"
  using pow_value_of_int[of x "numeral n"] by simp

lemma pow_value_1: "pow_value x 1 = x"
  using pow_value_of_int[of x 1] by simp

lemma pow_value_0: "pow_value x 0 = 1"
  using pow_value_of_int[of x 0] by simp

lemmas pow_value_simps = pow_value_numeral pow_value_m1 pow_value_1 pow_value_0

subsection \<open>Comprehensions and ranges\<close>

lemma comprehension_Inr:
  "comprehension f xs = Inr ys \<Longrightarrow>
     length ys = length xs \<and> (\<forall>i<length xs. f (xs ! i) = Inr (ys ! i))"
proof (induction xs arbitrary: ys)
  case Nil
  then show ?case by simp
next
  case (Cons x xs)
  from Cons.prems obtain y ys' where fx: "f x = Inr y"
    and c: "comprehension f xs = Inr ys'" and ys: "ys = y # ys'"
    by (auto split: sum.splits)
  from Cons.IH[OF c] show ?case using fx ys
    by (auto simp: nth_Cons split: nat.splits)
qed

lemma length_py_range [simp]: "length (py_range n) = n"
  by (simp add: py_range_def)

lemma nth_py_range [simp]: "i < n \<Longrightarrow> py_range n ! i = int i"
  by (simp add: py_range_def)

lemma set_py_range: "set (py_range n) = int ` {..<n}"
  by (auto simp: py_range_def)

subsection \<open>What the methods read of the object\<close>

lemma deriv_fields:
  assumes "g a = g b" "coordinates a = coordinates b"
  shows "deriv a = deriv b"
  by (intro ext) (simp add: deriv_def assms cong: sum.case_cong)

lemma christoffel_body_fields:
  assumes "g a = g b" "g_inv a = g_inv b" "coordinates a = coordinates b"
  shows "christoffel_body a = christoffel_body b"
  by (intro ext) (simp add: christoffel_body_def assms(2) deriv_fields[OF assms(1,3)] cong: sum.case_cong)

lemma compute_christoffel_fields:
  assumes "g a = g b" "g_inv a = g_inv b" "coordinates a = coordinates b" "dim a = dim b"
  shows "compute_christoffel a = compute_christoffel b"
  by (intro ext)
    (simp add: compute_christoffel_def assms(4) christoffel_body_fields[OF assms(1-3)])

lemma geodesic_body_fields:
  assumes "g a = g b" "g_inv a = g_inv b" "coordinates a = coordinates b" "dim a = dim b"
    "velocities a = velocities b"
  shows "geodesic_body a = geodesic_body b"
  by (intro ext)
    (simp add: geodesic_body_def assms(5) compute_christoffel_fields[OF assms(1-4)]
       cong: sum.case_cong)

lemma compute_geodesic_rhs_fields:
  assumes "g a = g b" "g_inv a = g_inv b" "coordinates a = coordinates b" "dim a = dim b"
    "velocities a = velocities b"
  shows "compute_geodesic_rhs a = compute_geodesic_rhs b"
  by (intro ext)
    (simp add: compute_geodesic_rhs_def assms(4) geodesic_body_fields[OF assms])

subsection \<open>The fields of a constructed object\<close>

lemma Metric_init_fields:
  assumes "Metric_init z g0 cs = Inr m"
  shows "g m = g0" "coordinates m = cs" "dim m = length cs"
    "velocities m = [''u0'', ''u1'', ''u2'', ''u3'']"
    "inverse_matrix z g0 = Inr (g_inv m)"
    "comprehension (compute_geodesic_rhs m) (py_range (dim m)) = Inr (geodesic_rhs m)"
proof -
  from assms obtain gi rhs where inv: "inverse_matrix z g0 = Inr gi"
    and comp: "comprehension
        (compute_geodesic_rhs \<lparr>g = g0, g_inv = gi, coordinates = cs, dim = length cs,
           velocities = [''u0'', ''u1'', ''u2'', ''u3''], geodesic_rhs = []\<rparr>)
        (py_range (length cs)) = Inr rhs"
    and m: "m = \<lparr>g = g0, g_inv = gi, coordinates = cs, dim = length cs,
           velocities = [''u0'', ''u1'', ''u2'', ''u3''], geodesic_rhs = rhs\<rparr>"
    by (auto simp: Metric_init_def Let_def split: sum.splits)
  show "g m = g0" "coordinates m = cs" "dim m = length cs"
    "velocities m = [''u0'', ''u1'', ''u2'', ''u3'']"
    "inverse_matrix z g0 = Inr (g_inv m)"
    using m inv by simp_all
  have "compute_geodesic_rhs m = compute_geodesic_rhs \<lparr>g = g0, g_inv = gi, coordinates = cs,
      dim = length cs, velocities = [''u0'', ''u1'', ''u2'', ''u3''], geodesic_rhs = []\<rparr>"
    by (rule compute_geodesic_rhs_fields) (simp_all add: m)
  then show "comprehension (compute_geodesic_rhs m) (py_range (dim m)) = Inr (geodesic_rhs m)"
    using comp m by simp
qed

lemma Metric_init_rhs:
  assumes "Metric_init z g0 cs = Inr m" "mu < dim m"
  shows "length (geodesic_rhs m) = dim m"
    "compute_geodesic_rhs m (int mu) = Inr (geodesic_rhs m ! mu)"
  using comprehension_Inr[OF Metric_init_fields(6)[OF assms(1)]] assms(2)
  by auto

lemma compute_geodesic_rhs_christoffel:
  assumes "compute_geodesic_rhs m mu = Inr r" "rho < dim m" "sigma < dim m"
  shows "\<exists>c. compute_christoffel m mu (int rho) (int sigma) = Inr c"
proof -
  have "int rho \<in> set (py_range (dim m))" "int sigma \<in> set (py_range (dim m))"
    using assms by (auto simp: set_py_range)
  from for_loop_Inr_body[OF assms(1)[unfolded compute_geodesic_rhs_def] this(1)]
  obtain s1 s2 where "for_loop (geodesic_body m mu (int rho)) s1 (py_range (dim m)) = Inr s2"
    by blast
  from for_loop_Inr_body[OF this \<open>int sigma \<in> _\<close>]
  show ?thesis
    by (cases "compute_christoffel m mu (int rho) (int sigma)") (auto simp: geodesic_body_def)
qed

lemma Metric_init_christoffel:
  assumes "Metric_init z g0 cs = Inr m" "mu < dim m" "rho < dim m" "sigma < dim m"
  shows "\<exists>c. compute_christoffel m (int mu) (int rho) (int sigma) = Inr c"
  using compute_geodesic_rhs_christoffel[OF Metric_init_rhs(2)[OF assms(1,2)] assms(3,4)] .

subsection \<open>The value of a Christoffel symbol\<close>

lemma deriv_int:
  "deriv m (int a) (int b) (int c) = Inr d \<Longrightarrow>
     d = differentiate (g m ! a ! b) (coordinates m ! c)"
  by (auto simp: deriv_def py_index_int dest!: mat_index_int split: sum.splits if_splits)

lemma christoffel_body_eval:
  assumes "christoffel_body m (int mu) (int rho) (int sigma) s (int nu) = Inr r"
  shows "eval env r = eval env s + 1 / 2 * christoffel_term m env mu rho sigma nu"
  using assms
  by (auto simp: christoffel_body_def christoffel_term_def py_add_def py_mul_def py_sub_def
      dest!: mat_index_int deriv_int split: sum.splits)

lemma compute_christoffel_eval:
  assumes "compute_christoffel m (int mu) (int rho) (int sigma) = Inr c"
  shows "eval env c = 1 / 2 * (\<Sum>nu<dim m. christoffel_term m env mu rho sigma nu)"
proof -
  have "eval env c = eval env (Constant 0)
          + sum_list (map (\<lambda>x. 1 / 2 * christoffel_term m env mu rho sigma (nat x))
                        (py_range (dim m)))"
  proof (rule for_loop_eval[OF _ assms[unfolded compute_christoffel_def]])
    fix s x r
    assume "x \<in> set (py_range (dim m))"
      and "christoffel_body m (int mu) (int rho) (int sigma) s x = Inr r"
    then show "eval env r = eval env s + 1 / 2 * christoffel_term m env mu rho sigma (nat x)"
      using christoffel_body_eval[of m mu rho sigma s "nat x" r env]
      by (auto simp: set_py_range)
  qed
  then show ?thesis
    by (simp add: sum_list_py_range sum_distrib_left)
qed

subsection \<open>Indices accepted and rejected\<close>

lemma py_index_eq:
  "py_index xs i =
     (if index_ok (length xs) i then Inr (xs ! wrap (length xs) i) else Inl IndexError)"
  by (auto simp: py_index_def index_ok_def wrap_def Let_def)

lemma wrap_less: "index_ok n i \<Longrightarrow> wrap n i < n"
  by (auto simp: index_ok_def wrap_def)

lemma index_ok_int [simp]: "index_ok n (int k) = (k < n)"
  by (simp add: index_ok_def)

lemma wrap_int [simp]: "wrap n (int k) = k"
  by (simp add: wrap_def)

lemma index_ok_mono: "index_ok d i \<Longrightarrow> d \<le> n \<Longrightarrow> index_ok n i"
  by (simp add: index_ok_def)

lemma square_row: "square M \<Longrightarrow> i < length M \<Longrightarrow> length (M ! i) = length M"
  by (simp add: square_def list_all_length)

lemma mat_index_square:
  assumes "square M"
  shows "mat_index M i j =
     (if index_ok (length M) i \<and> index_ok (length M) j
      then Inr (M ! wrap (length M) i ! wrap (length M) j) else Inl IndexError)"
  using square_row[OF assms wrap_less[of "length M" i]]
  by (simp add: mat_index_def py_index_eq)

lemma deriv_square:
  assumes "square (g m)"
  shows "deriv m a b c =
     (if index_ok (length (g m)) a \<and> index_ok (length (g m)) b
         \<and> index_ok (length (coordinates m)) c
      then Inr (differentiate (g m ! wrap (length (g m)) a ! wrap (length (g m)) b)
                  (coordinates m ! wrap (length (coordinates m)) c))
      else Inl IndexError)"
  by (simp add: deriv_def mat_index_square[OF assms] py_index_eq)

lemma christoffel_body_shaped:
  assumes "shaped m" "k < dim m" "dim m \<le> length (g m)"
  shows "(\<exists>r. christoffel_body m mu rho sigma s (int k) = Inr r) \<longleftrightarrow>
           index_ok (length (g m)) mu \<and> index_ok (dim m) rho \<and> index_ok (dim m) sigma"
    and "christoffel_body m mu rho sigma s (int k) = Inl e \<Longrightarrow> e = IndexError"
proof -
  have sq: "square (g m)" "square (g_inv m)" and l: "length (g_inv m) = length (g m)"
    "length (coordinates m) = dim m"
    using assms(1) by (auto simp: shaped_def)
  have k: "k < length (g m)" using assms by simp
  show "(\<exists>r. christoffel_body m mu rho sigma s (int k) = Inr r) \<longleftrightarrow>
           index_ok (length (g m)) mu \<and> index_ok (dim m) rho \<and> index_ok (dim m) sigma"
    using k assms(2,3) index_ok_mono[OF _ assms(3)]
    by (auto simp: christoffel_body_def mat_index_square[OF sq(2)] deriv_square[OF sq(1)] l)
  show "christoffel_body m mu rho sigma s (int k) = Inl e \<Longrightarrow> e = IndexError"
    by (auto simp: christoffel_body_def mat_index_square[OF sq(2)] deriv_square[OF sq(1)] l
        split: if_splits)
qed

lemma for_loop_Inl:
  "for_loop body s xs = Inl e \<Longrightarrow> \<exists>s' x. x \<in> set xs \<and> body s' x = Inl e"
proof (induction xs arbitrary: s)
  case Nil
  then show ?case by simp
next
  case (Cons y ys)
  show ?case
  proof (cases "body s y")
    case (Inl e')
    with Cons.prems have "body s y = Inl e" by simp
    then show ?thesis by (meson list.set_intros(1))
  next
    case (Inr b)
    with Cons.prems have "for_loop body b ys = Inl e" by simp
    from Cons.IH[OF this] show ?thesis by (meson list.set_intros(2))
  qed
qed

lemma for_loop_total:
  "(\<And>s x. x \<in> set xs \<Longrightarrow> \<exists>s'. body s x = Inr s') \<Longrightarrow> \<exists>r. for_loop body s xs = Inr r"
proof (induction xs arbitrary: s)
  case Nil
  then show ?case by simp
next
  case (Cons y ys)
  then obtain s' where "body s y = Inr s'" by (meson list.set_intros(1))
  moreover have "\<exists>r. for_loop body s' ys = Inr r"
    using Cons by (meson list.set_intros(2))
  ultimately show ?case by simp
qed

lemma compute_christoffel_shaped:
  assumes "shaped m" "dim m \<le> length (g m)" "0 < dim m"
  shows "(\<exists>c. compute_christoffel m mu rho sigma = Inr c) \<longleftrightarrow>
           index_ok (length (g m)) mu \<and> index_ok (dim m) rho \<and> index_ok (dim m) sigma"
proof
  assume "\<exists>c. compute_christoffel m mu rho sigma = Inr c"
  then obtain c where c: "compute_christoffel m mu rho sigma = Inr c" ..
  have "int 0 \<in> set (py_range (dim m))" using assms(3) by (auto simp: set_py_range)
  from for_loop_Inr_body[OF c[unfolded compute_christoffel_def] this]
  obtain s1 s2 where "christoffel_body m mu rho sigma s1 (int 0) = Inr s2" by blast
  then show "index_ok (length (g m)) mu \<and> index_ok (dim m) rho \<and> index_ok (dim m) sigma"
    using christoffel_body_shaped(1)[OF assms(1) assms(3) assms(2)] by blast
next
  assume ok: "index_ok (length (g m)) mu \<and> index_ok (dim m) rho \<and> index_ok (dim m) sigma"
  show "\<exists>c. compute_christoffel m mu rho sigma = Inr c"
    unfolding compute_christoffel_def
  proof (rule for_loop_total)
    fix s x assume "x \<in> set (py_range (dim m))"
    then obtain k where "x = int k" "k < dim m" by (auto simp: set_py_range)
    then show "\<exists>s'. christoffel_body m mu rho sigma s x = Inr s'"
      using christoffel_body_shaped(1)[OF assms(1) _ assms(2)] ok by blast
  qed
qed

subsection \<open>The errors of the queries\<close>

lemma mat_index_error: "mat_index M i j = Inl e \<Longrightarrow> e = IndexError"
  by (auto simp: mat_index_def split: sum.splits dest: py_index_error)

lemma deriv_error: "deriv m a b c = Inl e \<Longrightarrow> e = IndexError"
  by (auto simp: deriv_def split: sum.splits dest: py_index_error mat_index_error)

lemma christoffel_body_error:
  "christoffel_body m mu rho sigma s nu = Inl e \<Longrightarrow> e = IndexError"
  by (auto simp: christoffel_body_def split: sum.splits dest: deriv_error mat_index_error)

lemma compute_christoffel_IndexError:
  "compute_christoffel m mu rho sigma = Inl e \<Longrightarrow> e = IndexError"
  unfolding compute_christoffel_def
  by (auto dest!: for_loop_Inl dest: christoffel_body_error)

lemma geodesic_body_error:
  "geodesic_body m mu rho s sigma = Inl e \<Longrightarrow> e = IndexError"
  by (auto simp: geodesic_body_def split: sum.splits
      dest: compute_christoffel_IndexError py_index_error)

lemma compute_geodesic_rhs_error:
  "compute_geodesic_rhs m mu = Inl e \<Longrightarrow> e = IndexError"
  unfolding compute_geodesic_rhs_def
  by (auto dest!: for_loop_Inl dest: geodesic_body_error)

lemma comprehension_Inl:
  "comprehension f xs = Inl e \<Longrightarrow> \<exists>x\<in>set xs. f x = Inl e"
  by (induction xs) (auto split: sum.splits)

lemma comprehension_total:
  "(\<And>x. x \<in> set xs \<Longrightarrow> \<exists>y. f x = Inr y) \<Longrightarrow> \<exists>ys. comprehension f xs = Inr ys"
proof (induction xs)
  case Nil
  then show ?case by simp
next
  case (Cons x xs)
  then obtain y where "f x = Inr y" by (meson list.set_intros(1))
  moreover obtain ys where "comprehension f xs = Inr ys"
    using Cons by (meson list.set_intros(2))
  ultimately show ?case by simp
qed

subsection \<open>When the construction succeeds\<close>

lemma inverse_matrix_Inr:
  assumes "inverse_matrix z M = Inr gi"
  shows "square M" "\<not> z (determinant M)" "square gi" "length gi = length M"
  using assms
  by (auto simp: inverse_matrix_def Let_def adjugate_def square_def list_all_iff
      split: if_splits)

lemma inverse_matrix_total:
  "square M \<Longrightarrow> \<not> z (determinant M) \<Longrightarrow> \<exists>gi. inverse_matrix z M = Inr gi"
  by (simp add: inverse_matrix_def Let_def)

lemma Metric_init_shaped:
  assumes "Metric_init z g0 cs = Inr m"
  shows "shaped m"
  using inverse_matrix_Inr[OF Metric_init_fields(5)[OF assms]] Metric_init_fields(1-3)[OF assms]
  by (simp add: shaped_def)

lemma geodesic_body_ok:
  assumes "shaped m" "dim m \<le> length (g m)" "r < dim m" "k < dim m"
  shows "(\<exists>s'. geodesic_body m mu (int r) s (int k) = Inr s') \<longleftrightarrow>
     index_ok (length (g m)) mu \<and> r < length (velocities m) \<and> k < length (velocities m)"
proof -
  have "0 < dim m" using assms(3) by simp
  from compute_christoffel_shaped[OF assms(1,2) this, of mu "int r" "int k"] assms(3,4)
  show ?thesis
    by (auto simp: geodesic_body_def py_index_eq split: sum.splits)
qed

lemma compute_geodesic_rhs_ok:
  assumes "shaped m" "dim m \<le> length (g m)" "0 < dim m"
  shows "(\<exists>r. compute_geodesic_rhs m mu = Inr r) \<longleftrightarrow>
     index_ok (length (g m)) mu \<and> dim m \<le> length (velocities m)"
proof
  assume "\<exists>r. compute_geodesic_rhs m mu = Inr r"
  then obtain r where r: "compute_geodesic_rhs m mu = Inr r" ..
  have 0: "int 0 \<in> set (py_range (dim m))" using assms(3) by (auto simp: set_py_range)
  from for_loop_Inr_body[OF r[unfolded compute_geodesic_rhs_def] 0]
  obtain s1 s2 where l: "for_loop (geodesic_body m mu (int 0)) s1 (py_range (dim m)) = Inr s2"
    by blast
  have "k < length (velocities m) \<and> index_ok (length (g m)) mu" if "k < dim m" for k
  proof -
    have "int k \<in> set (py_range (dim m))" using that by (auto simp: set_py_range)
    from for_loop_Inr_body[OF l this] geodesic_body_ok[OF assms(1,2,3) that]
    show ?thesis by blast
  qed
  from this[of "dim m - 1"] this[of 0] assms(3)
  show "index_ok (length (g m)) mu \<and> dim m \<le> length (velocities m)" by auto
next
  assume ok: "index_ok (length (g m)) mu \<and> dim m \<le> length (velocities m)"
  show "\<exists>r. compute_geodesic_rhs m mu = Inr r"
    unfolding compute_geodesic_rhs_def
  proof (rule for_loop_total)
    fix s x assume "x \<in> set (py_range (dim m))"
    then obtain r where x: "x = int r" "r < dim m" by (auto simp: set_py_range)
    show "\<exists>s'. for_loop (geodesic_body m mu x) s (py_range (dim m)) = Inr s'"
    proof (rule for_loop_total)
      fix s y assume "y \<in> set (py_range (dim m))"
      then obtain k where y: "y = int k" "k < dim m" by (auto simp: set_py_range)
      show "\<exists>s'. geodesic_body m mu x s y = Inr s'"
        using geodesic_body_ok[OF assms(1,2) x(2) y(2), of mu s] ok x y by auto
    qed
  qed
qed

lemma Metric_init_dim_le:
  assumes "Metric_init z g0 cs = Inr m"
  shows "dim m \<le> length (g m)"
proof (cases "dim m")
  case 0
  then show ?thesis by simp
next
  case (Suc d)
  then have 0: "0 < dim m" by simp
  from Metric_init_christoffel[OF assms 0 0 0]
  obtain c where c: "compute_christoffel m (int 0) (int 0) (int 0) = Inr c" ..
  have "int (dim m - 1) \<in> set (py_range (dim m))"
    unfolding set_py_range using 0 by (intro imageI) simp
  from for_loop_Inr_body[OF c[unfolded compute_christoffel_def] this]
  obtain s1 s2 where "christoffel_body m (int 0) (int 0) (int 0) s1 (int (dim m - 1)) = Inr s2"
    by blast
  then obtain v where "mat_index (g_inv m) (int 0) (int (dim m - 1)) = Inr v"
    by (auto simp: christoffel_body_def split: sum.splits)
  from mat_index_int[OF this]
  have "0 < length (g_inv m)" "dim m - 1 < length (g_inv m ! 0)" by auto
  moreover have "square (g_inv m)" "length (g_inv m) = length (g m)"
    using Metric_init_shaped[OF assms] by (auto simp: shaped_def)
  ultimately show ?thesis
    using square_row[of "g_inv m" 0] by simp
qed

lemma Metric_init_dim_le_4:
  assumes "Metric_init z g0 cs = Inr m"
  shows "dim m \<le> 4"
proof (cases "dim m")
  case 0
  then show ?thesis by simp
next
  case (Suc d)
  then have 0: "0 < dim m" by simp
  from Metric_init_rhs(2)[OF assms 0]
    compute_geodesic_rhs_ok[OF Metric_init_shaped[OF assms] Metric_init_dim_le[OF assms] 0, of "int 0"]
  show ?thesis by (auto simp: Metric_init_fields(4)[OF assms])
qed

lemma Metric_init_total:
  assumes "square g0" "\<not> z (determinant g0)" "length cs \<le> length g0" "length cs \<le> 4"
  shows "\<exists>m. Metric_init z g0 cs = Inr m"
proof -
  from inverse_matrix_total[of g0 z] assms(1,2)
  obtain gi where gi: "inverse_matrix z g0 = Inr gi" by blast
  define self where "self = \<lparr>g = g0, g_inv = gi, coordinates = cs, dim = length cs,
     velocities = [''u0'', ''u1'', ''u2'', ''u3''], geodesic_rhs = []\<rparr>"
  have sh: "shaped self"
    using inverse_matrix_Inr[OF gi] by (simp add: shaped_def self_def)
  have le: "dim self \<le> length (g self)" using assms(3) by (simp add: self_def)
  have "\<exists>rhs. comprehension (compute_geodesic_rhs self) (py_range (dim self)) = Inr rhs"
  proof (rule comprehension_total)
    fix x assume "x \<in> set (py_range (dim self))"
    then obtain k where k: "x = int k" "k < dim self" by (auto simp: set_py_range)
    then have pos: "0 < dim self" by simp
    have "index_ok (length (g self)) x" using k le by simp
    moreover have "dim self \<le> length (velocities self)"
      using assms(4) by (simp add: self_def)
    ultimately show "\<exists>y. compute_geodesic_rhs self x = Inr y"
      using compute_geodesic_rhs_ok[OF sh le pos, of x] by blast
  qed
  then obtain rhs where "comprehension (compute_geodesic_rhs self) (py_range (dim self)) = Inr rhs" ..
  then show ?thesis using gi
    by (simp add: Metric_init_def Let_def self_def)
qed

lemma Metric_init_iff:
  "(\<exists>m. Metric_init z g0 cs = Inr m) \<longleftrightarrow>
     square g0 \<and> \<not> z (determinant g0) \<and> length cs \<le> length g0 \<and> length cs \<le> 4"
proof
  assume "\<exists>m. Metric_init z g0 cs = Inr m"
  then obtain m where m: "Metric_init z g0 cs = Inr m" ..
  from inverse_matrix_Inr[OF Metric_init_fields(5)[OF m]] Metric_init_dim_le[OF m]
    Metric_init_dim_le_4[OF m] Metric_init_fields(1-3)[OF m]
  show "square g0 \<and> \<not> z (determinant g0) \<and> length cs \<le> length g0 \<and> length cs \<le> 4"
    by simp
next
  assume "square g0 \<and> \<not> z (determinant g0) \<and> length cs \<le> length g0 \<and> length cs \<le> 4"
  then show "\<exists>m. Metric_init z g0 cs = Inr m" using Metric_init_total by blast
qed

lemma Metric_init_error:
  assumes "Metric_init z g0 cs = Inl e"
  shows "e = (if \<not> square g0 then NonSquareMatrix
              else if z (determinant g0) then SingularMatrix else IndexError)"
proof (cases "inverse_matrix z g0")
  case (Inl e')
  then show ?thesis using assms
    by (auto simp: Metric_init_def inverse_matrix_def Let_def split: if_splits)
next
  case (Inr gi)
  from inverse_matrix_Inr[OF Inr] have "square g0" "\<not> z (determinant g0)" by auto
  moreover have "e = IndexError"
    using assms Inr
    by (auto simp: Metric_init_def Let_def split: sum.splits
        dest!: comprehension_Inl dest: compute_geodesic_rhs_error)
  ultimately show ?thesis by simp
qed

subsection \<open>The value of the geodesic right-hand side\<close>

lemma geodesic_body_eval:
  assumes "geodesic_body m mu (int rho) s (int sigma) = Inr r"
  shows "eval env r = eval env s +
     - (eval env (projr (compute_christoffel m mu (int rho) (int sigma)))
         * env (velocities m ! rho) * env (velocities m ! sigma))"
  using assms
  by (auto simp: geodesic_body_def py_sub_def py_mul_def py_index_int
      split: sum.splits if_splits)

lemma compute_geodesic_rhs_eval:
  assumes "compute_geodesic_rhs m mu = Inr r"
  shows "eval env r =
     - (\<Sum>rho<dim m. \<Sum>sigma<dim m.
          eval env (projr (compute_christoffel m mu (int rho) (int sigma)))
            * env (velocities m ! rho) * env (velocities m ! sigma))"
proof -
  let ?t = "\<lambda>rho sigma. - (eval env (projr (compute_christoffel m mu (int rho) (int sigma)))
            * env (velocities m ! rho) * env (velocities m ! sigma))"
  have inner: "eval env r' = eval env s + (\<Sum>sigma<dim m. ?t rho sigma)"
    if "for_loop (geodesic_body m mu (int rho)) s (py_range (dim m)) = Inr r'" for rho s r'
  proof -
    have "eval env r' = eval env s
        + sum_list (map (\<lambda>x. ?t rho (nat x)) (py_range (dim m)))"
    proof (rule for_loop_eval[OF _ that])
      fix s0 x r0
      assume "x \<in> set (py_range (dim m))" "geodesic_body m mu (int rho) s0 x = Inr r0"
      then show "eval env r0 = eval env s0 + ?t rho (nat x)"
        using geodesic_body_eval[of m mu rho s0 "nat x" r0 env]
        by (auto simp: set_py_range)
    qed
    then show ?thesis by (simp add: sum_list_py_range)
  qed
  have "eval env r = eval env (Constant 0)
      + sum_list (map (\<lambda>x. \<Sum>sigma<dim m. ?t (nat x) sigma) (py_range (dim m)))"
  proof (rule for_loop_eval[OF _ assms[unfolded compute_geodesic_rhs_def]])
    fix s0 x r0
    assume "x \<in> set (py_range (dim m))"
      "for_loop (geodesic_body m mu x) s0 (py_range (dim m)) = Inr r0"
    then show "eval env r0 = eval env s0 + (\<Sum>sigma<dim m. ?t (nat x) sigma)"
      using inner[of "nat x" s0 r0] by (auto simp: set_py_range)
  qed
  then show ?thesis
    by (simp add: sum_list_py_range sum_negf)
qed

lemma christoffel_term_sym:
  assumes "g m ! rho ! sigma = g m ! sigma ! rho"
  shows "christoffel_term m env mu rho sigma nu = christoffel_term m env mu sigma rho nu"
  using assms by (simp add: christoffel_term_def)

subsection \<open>Negative indices\<close>

lemma wrap_wrap [simp]: "index_ok n i \<Longrightarrow> wrap n (int (wrap n i)) = wrap n i"
  by simp

lemma christoffel_body_wrap:
  assumes "shaped m" "length (g m) = dim m"
    "index_ok (dim m) mu" "index_ok (dim m) rho" "index_ok (dim m) sigma"
  shows "christoffel_body m mu rho sigma =
         christoffel_body m (int (wrap (dim m) mu)) (int (wrap (dim m) rho))
           (int (wrap (dim m) sigma))"
proof -
  have sq: "square (g m)" "square (g_inv m)" and l: "length (g_inv m) = dim m"
    "length (coordinates m) = dim m"
    using assms(1,2) by (auto simp: shaped_def)
  show ?thesis
    using assms(3-5) wrap_less[OF assms(3)] wrap_less[OF assms(4)] wrap_less[OF assms(5)]
    by (intro ext)
      (simp add: christoffel_body_def mat_index_square[OF sq(2)] deriv_square[OF sq(1)] l assms(2))
qed

subsection \<open>Example metrics\<close>

lemmas inverse_defs = inverse_matrix_def square_def syntactic_zero_def adjugate_def cofactor_def
  minor_matrix_def remove_nth_def py_div_def Let_def

lemmas query_defs = compute_christoffel_def py_range_def christoffel_body_def deriv_def
  mat_index_def py_index_def py_add_def py_sub_def py_mul_def Let_def

lemma Metric_init_example:
  assumes "square g0" "\<not> z (determinant g0)" "length cs \<le> length g0" "length cs \<le> 4"
    "inverse_matrix z g0 = Inr gi"
  obtains m where "Metric_init z g0 cs = Inr m" "g m = g0" "g_inv m = gi" "coordinates m = cs"
    "dim m = length cs" "velocities m = [''u0'', ''u1'', ''u2'', ''u3'']"
proof -
  from Metric_init_total[of g0 z cs] assms(1-4)
  obtain m where m: "Metric_init z g0 cs = Inr m" by blast
  from Metric_init_fields[OF m] assms(5) that[OF m] show ?thesis by simp
qed

lemma polar_inverse:
  "inverse_matrix syntactic_zero
     [[Constant 1, Constant 0], [Constant 0, Pow (Symbol ''r'') (Constant 2)]] =
   Inr [[Mul [Mul [Constant 1, Pow (Symbol ''r'') (Constant 2)],
              Pow (Add [Mul [Constant 1, Pow (Symbol ''r'') (Constant 2)],
                        Neg (Mul [Constant 0, Constant 0])]) (Constant (- 1))],
         Mul [Mul [Constant (- 1), Constant 0],
              Pow (Add [Mul [Constant 1, Pow (Symbol ''r'') (Constant 2)],
                        Neg (Mul [Constant 0, Constant 0])]) (Constant (- 1))]],
        [Mul [Mul [Constant (- 1), Constant 0],
              Pow (Add [Mul [Constant 1, Pow (Symbol ''r'') (Constant 2)],
                        Neg (Mul [Constant 0, Constant 0])]) (Constant (- 1))],
         Mul [Mul [Constant 1, Constant 1],
              Pow (Add [Mul [Constant 1, Pow (Symbol ''r'') (Constant 2)],
                        Neg (Mul [Constant 0, Constant 0])]) (Constant (- 1))]]]"
  by (simp add: inverse_defs upt_rec)

subsection \<open>The presets\<close>

lemma kerr_det: "eval sample_point (determinant kerr_g) = - 1"
  by (simp add: kerr_g_def kerr_g03_def kerr_sigma_def kerr_delta_def num_def py_add_def py_sub_def py_mul_def
      py_div_def py_pow_def remove_nth_def upt_rec sample_point_def pow_value_simps)

lemma schw_det: "eval sample_point (determinant schwarzschild_g) = - 1"
  by (simp add: schwarzschild_g_def num_def py_add_def py_sub_def py_mul_def
      py_div_def py_pow_def remove_nth_def upt_rec sample_point_def pow_value_simps)

lemma square_kerr_g: "square kerr_g" "length kerr_g = 4"
  by (simp_all add: square_def kerr_g_def)

lemma square_schwarzschild_g: "square schwarzschild_g" "length schwarzschild_g = 4"
  by (simp_all add: square_def schwarzschild_g_def)

lemma sound_not_zero:
  assumes "\<forall>e. z e \<longrightarrow> (\<forall>env. eval env e = 0)"
  shows "\<not> z (determinant kerr_g)" "\<not> z (determinant schwarzschild_g)"
  using assms kerr_det schw_det by fastforce+

lemma getMetric_cases:
  "getMetric z name =
     (case Metric_init z kerr_g [''t'', ''r'', ''theta'', ''phi''] of
        Inl e \<Rightarrow> Inl e
      | Inr kerr \<Rightarrow>
          (case Metric_init z schwarzschild_g [''t'', ''r'', ''theta'', ''phi''] of
             Inl e \<Rightarrow> Inl e
           | Inr schwarzschild \<Rightarrow>
               if name = ''kerr''
               then Inr (kerr, [''t'', ''r'', ''theta'', ''phi'', ''M'', ''a''])
               else if name = ''schwarzschild''
               then Inr (schwarzschild, [''t'', ''r'', ''theta'', ''phi'', ''M''])
               else Inl KeyError))"
  by (simp add: getMetric_def Let_def split: sum.splits)


section \<open>The adjugate divided by the determinant is the inverse\<close>

lemma det_fn_cong:
  "(\<And>i j. i < n \<Longrightarrow> j < n \<Longrightarrow> A i j = B i j) \<Longrightarrow> det_fn n A = det_fn n B"
proof (induction n arbitrary: A B)
  case 0
  then show ?case by simp
next
  case (Suc n)
  have "det_fn n (minor_fn A 0 j) = det_fn n (minor_fn B 0 j)" if "j < Suc n" for j
    by (rule Suc.IH) (use Suc.prems that in \<open>auto simp: minor_fn_def skip_def\<close>)
  then show ?case using Suc.prems by simp
qed

lemma minor_swap_before:
  "k < j \<Longrightarrow> minor_fn (swap_cols j A) 0 k = swap_cols (j - 1) (minor_fn A 0 k)"
  by (intro ext) (auto simp: minor_fn_def swap_cols_def swap_index_def skip_def dest: less_antisym)

lemma minor_swap_after:
  "Suc j < k \<Longrightarrow> minor_fn (swap_cols j A) 0 k = swap_cols j (minor_fn A 0 k)"
  by (intro ext) (auto simp: minor_fn_def swap_cols_def swap_index_def skip_def dest: less_antisym)

lemma minor_swap_left:
  "minor_fn (swap_cols j A) 0 j = minor_fn A 0 (Suc j)"
  by (intro ext) (auto simp: minor_fn_def swap_cols_def swap_index_def skip_def dest: less_antisym)

lemma minor_swap_right:
  "minor_fn (swap_cols j A) 0 (Suc j) = minor_fn A 0 j"
  by (intro ext) (auto simp: minor_fn_def swap_cols_def swap_index_def skip_def dest: less_antisym)

lemma swap_index_sum:
  assumes "Suc j < n"
  shows "(\<Sum>k<n. h (swap_index j k)) = (\<Sum>k<n. h k)"
  by (rule sum.reindex_bij_witness[of _ "swap_index j" "swap_index j"])
    (use assms in \<open>auto simp: swap_index_def\<close>)

lemma det_fn_swap_cols:
  "Suc j < n \<Longrightarrow> det_fn n (swap_cols j A) = - det_fn n A"
proof (induction n arbitrary: A j)
  case 0
  then show ?case by simp
next
  case (Suc n)
  let ?h = "\<lambda>k. (- 1) ^ k * A 0 k * det_fn n (minor_fn A 0 k)"
  have summand: "(- 1) ^ k * swap_cols j A 0 k * det_fn n (minor_fn (swap_cols j A) 0 k)
      = - ?h (swap_index j k)" if "k < Suc n" for k
  proof -
    consider "k < j" | "k = j" | "k = Suc j" | "Suc j < k" by linarith
    then show ?thesis
    proof cases
      case 1
      then have "Suc (j - 1) < n" using Suc.prems by simp
      from Suc.IH[OF this]
      have "det_fn n (minor_fn (swap_cols j A) 0 k) = - det_fn n (minor_fn A 0 k)"
        by (simp only: minor_swap_before[OF 1])
      moreover have "swap_cols j A 0 k = A 0 k" "swap_index j k = k"
        using 1 by (simp_all add: swap_cols_def swap_index_def)
      ultimately show ?thesis by simp
    next
      case 2
      have "det_fn n (minor_fn (swap_cols j A) 0 k) = det_fn n (minor_fn A 0 (Suc j))"
        by (simp only: 2 minor_swap_left)
      moreover have "swap_cols j A 0 k = A 0 (Suc j)" "swap_index j k = Suc j"
        using 2 by (simp_all add: swap_cols_def swap_index_def)
      ultimately show ?thesis using 2 by simp
    next
      case 3
      have "det_fn n (minor_fn (swap_cols j A) 0 k) = det_fn n (minor_fn A 0 j)"
        by (simp only: 3 minor_swap_right)
      moreover have "swap_cols j A 0 k = A 0 j" "swap_index j k = j"
        using 3 by (simp_all add: swap_cols_def swap_index_def)
      ultimately show ?thesis using 3 by simp
    next
      case 4
      then have "Suc j < n" using that by simp
      from Suc.IH[OF this]
      have "det_fn n (minor_fn (swap_cols j A) 0 k) = - det_fn n (minor_fn A 0 k)"
        by (simp only: minor_swap_after[OF 4])
      moreover have "swap_cols j A 0 k = A 0 k" "swap_index j k = k"
        using 4 by (simp_all add: swap_cols_def swap_index_def)
      ultimately show ?thesis by simp
    qed
  qed
  have "det_fn (Suc n) (swap_cols j A) = (\<Sum>k<Suc n. - ?h (swap_index j k))"
    unfolding det_fn.simps by (rule sum.cong) (use summand in auto)
  also have "\<dots> = - (\<Sum>k<Suc n. ?h (swap_index j k))"
    by (simp only: sum_negf)
  also have "(\<Sum>k<Suc n. ?h (swap_index j k)) = (\<Sum>k<Suc n. ?h k)"
    by (rule swap_index_sum[OF Suc.prems])
  finally show ?case by simp
qed

lemma det_fn_adjacent_equal:
  assumes "Suc a < n" "\<And>i. i < n \<Longrightarrow> A i a = A i (Suc a)"
  shows "det_fn n A = 0"
proof -
  have "det_fn n (swap_cols a A) = det_fn n A"
  proof (rule det_fn_cong)
    fix i j assume "i < n" "j < n"
    from assms(2)[OF this(1)] show "swap_cols a A i j = A i j"
      by (cases "j = a"; cases "j = Suc a") (simp_all add: swap_cols_def swap_index_def)
  qed
  with det_fn_swap_cols[OF assms(1), of A] show ?thesis by simp
qed

lemma det_fn_equal_cols_aux:
  "a + Suc d < n \<Longrightarrow> (\<And>i. i < n \<Longrightarrow> A i a = A i (a + Suc d)) \<Longrightarrow> det_fn n A = 0"
proof (induction d arbitrary: A)
  case 0
  show ?case
  proof (rule det_fn_adjacent_equal[of a n A])
    show "Suc a < n" using 0(1) by simp
    fix i assume "i < n"
    from 0(2)[OF this] show "A i a = A i (Suc a)" by simp
  qed
next
  case (Suc d)
  let ?B = "swap_cols (a + Suc d) A"
  have "det_fn n ?B = 0"
  proof (rule Suc.IH)
    show "a + Suc d < n" using Suc.prems(1) by simp
    fix i assume "i < n"
    from Suc.prems(2)[OF this] show "?B i a = ?B i (a + Suc d)"
      by (simp add: swap_cols_def swap_index_def)
  qed
  moreover have "det_fn n ?B = - det_fn n A"
    by (rule det_fn_swap_cols) (use Suc.prems(1) in simp)
  ultimately show ?case by simp
qed

lemma det_fn_equal_cols:
  assumes "a < b" "b < n" "\<And>i. i < n \<Longrightarrow> A i a = A i b"
  shows "det_fn n A = 0"
proof -
  define d where "d = b - Suc a"
  have d: "b = a + Suc d" using assms(1) by (simp add: d_def)
  show ?thesis
  proof (rule det_fn_equal_cols_aux[of a d n A])
    show "a + Suc d < n" using assms(2) d by simp
    fix i assume "i < n"
    from assms(3)[OF this] show "A i a = A i (a + Suc d)" unfolding d .
  qed
qed

lemma skip_image: "j < Suc n \<Longrightarrow> skip j ` {..<n} = {..<Suc n} - {j}"
proof (intro equalityI subsetI)
  fix x assume "j < Suc n" "x \<in> skip j ` {..<n}"
  then show "x \<in> {..<Suc n} - {j}" by (auto simp: skip_def)
next
  fix x assume j: "j < Suc n" and x: "x \<in> {..<Suc n} - {j}"
  show "x \<in> skip j ` {..<n}"
  proof (cases "x < j")
    case True
    then have "x = skip j x" "x < n" using j by (auto simp: skip_def)
    then show ?thesis by blast
  next
    case False
    then have "x = skip j (x - 1)" "x - 1 < n" using x by (auto simp: skip_def)
    then show ?thesis by blast
  qed
qed

lemma skip_eq_iff: "skip j a = skip j b \<longleftrightarrow> a = b"
  unfolding skip_def by (cases "a < j"; cases "b < j") auto

lemma inj_skip: "inj_on (skip j) S"
  by (simp add: inj_on_def skip_eq_iff)

lemma sum_skip:
  fixes F :: "nat \<Rightarrow> real"
  assumes "j < Suc n"
  shows "(\<Sum>k<Suc n. F k) = F j + (\<Sum>k<n. F (skip j k))"
proof -
  have "(\<Sum>k<Suc n. F k) = F j + sum F ({..<Suc n} - {j})"
    by (rule sum.remove) (use assms in auto)
  also have "sum F ({..<Suc n} - {j}) = sum F (skip j ` {..<n})"
    by (simp only: skip_image[OF assms])
  also have "\<dots> = (\<Sum>k<n. F (skip j k))"
    by (simp add: sum.reindex[OF inj_skip] comp_def)
  finally show ?thesis .
qed

lemma minor_minor_before:
  "k < j \<Longrightarrow> minor_fn (minor_fn A 0 k) i (j - 1) = minor_fn (minor_fn A (Suc i) j) 0 k"
  by (intro ext) (auto simp: minor_fn_def skip_def)

lemma minor_minor_after:
  "j \<le> k \<Longrightarrow> minor_fn (minor_fn A 0 (Suc k)) i j = minor_fn (minor_fn A (Suc i) j) 0 k"
  by (intro ext) (auto simp: minor_fn_def skip_def)

lemma det_fn_col_expansion:
  "j < Suc n \<Longrightarrow>
     det_fn (Suc n) A = (\<Sum>i<Suc n. (- 1) ^ (i + j) * A i j * det_fn n (minor_fn A i j))"
proof (induction n arbitrary: A j)
  case 0
  then show ?case by simp
next
  case (Suc n)
  let ?N = "Suc n"
  define G where "G i k = (- 1) ^ (Suc i + j) * A (Suc i) j *
      ((- 1) ^ k * A 0 (skip j k) * det_fn n (minor_fn (minor_fn A (Suc i) j) 0 k))" for i k
  have left: "(- 1) ^ skip j k * A 0 (skip j k) * det_fn ?N (minor_fn A 0 (skip j k))
      = (\<Sum>i<?N. G i k)" if k: "k < ?N" for k
  proof (cases "k < j")
    case True
    then obtain j0 where j0: "j = Suc j0" by (cases j) auto
    have sk: "skip j k = k" using True by (simp add: skip_def)
    have "j - 1 < ?N" using Suc.prems by simp
    from Suc.IH[OF this, of "minor_fn A 0 k"]
    have "det_fn ?N (minor_fn A 0 k) =
        (\<Sum>i<?N. (- 1) ^ (i + (j - 1)) * minor_fn A 0 k i (j - 1)
           * det_fn n (minor_fn (minor_fn A (Suc i) j) 0 k))"
      by (simp only: minor_minor_before[OF True])
    moreover have "minor_fn A 0 k i (j - 1) = A (Suc i) j" for i
      using True by (auto simp: minor_fn_def skip_def)
    ultimately have "det_fn ?N (minor_fn A 0 k) =
        (\<Sum>i<?N. (- 1) ^ (i + (j - 1)) * A (Suc i) j
           * det_fn n (minor_fn (minor_fn A (Suc i) j) 0 k))"
      by (simp only:)
    then have "(- 1) ^ k * A 0 k * det_fn ?N (minor_fn A 0 k) =
        (\<Sum>i<?N. (- 1) ^ k * A 0 k * ((- 1) ^ (i + (j - 1)) * A (Suc i) j
           * det_fn n (minor_fn (minor_fn A (Suc i) j) 0 k)))"
      by (simp only: sum_distrib_left)
    also have "\<dots> = (\<Sum>i<?N. G i k)"
      by (rule sum.cong) (simp_all add: G_def sk sk[unfolded j0] j0)
    finally show ?thesis unfolding sk .
  next
    case False
    then have jk: "j \<le> k" by simp
    have sk: "skip j k = Suc k" using False by (simp add: skip_def)
    have "j < ?N" using jk k by simp
    from Suc.IH[OF this, of "minor_fn A 0 (Suc k)"]
    have "det_fn ?N (minor_fn A 0 (Suc k)) =
        (\<Sum>i<?N. (- 1) ^ (i + j) * minor_fn A 0 (Suc k) i j
           * det_fn n (minor_fn (minor_fn A (Suc i) j) 0 k))"
      by (simp only: minor_minor_after[OF jk])
    moreover have "minor_fn A 0 (Suc k) i j = A (Suc i) j" for i
      using jk by (auto simp: minor_fn_def skip_def)
    ultimately have "det_fn ?N (minor_fn A 0 (Suc k)) =
        (\<Sum>i<?N. (- 1) ^ (i + j) * A (Suc i) j
           * det_fn n (minor_fn (minor_fn A (Suc i) j) 0 k))"
      by (simp only:)
    then have "(- 1) ^ Suc k * A 0 (Suc k) * det_fn ?N (minor_fn A 0 (Suc k)) =
        (\<Sum>i<?N. (- 1) ^ Suc k * A 0 (Suc k) * ((- 1) ^ (i + j) * A (Suc i) j
           * det_fn n (minor_fn (minor_fn A (Suc i) j) 0 k)))"
      by (simp only: sum_distrib_left)
    also have "\<dots> = (\<Sum>i<?N. G i k)"
      by (rule sum.cong) (simp_all add: G_def sk)
    finally show ?thesis unfolding sk .
  qed
  have right: "(- 1) ^ (Suc i + j) * A (Suc i) j * det_fn ?N (minor_fn A (Suc i) j)
      = (\<Sum>k<?N. G i k)" for i
  proof -
    have "minor_fn A (Suc i) j 0 k = A 0 (skip j k)" for k
      by (simp add: minor_fn_def skip_def)
    then have "det_fn ?N (minor_fn A (Suc i) j) =
        (\<Sum>k<?N. (- 1) ^ k * A 0 (skip j k) * det_fn n (minor_fn (minor_fn A (Suc i) j) 0 k))"
      by (simp only: det_fn.simps)
    then show ?thesis
      unfolding G_def by (simp only: sum_distrib_left)
  qed
  let ?h = "\<lambda>k. (- 1) ^ k * A 0 k * det_fn ?N (minor_fn A 0 k)"
  have "det_fn (Suc ?N) A = (\<Sum>k<Suc ?N. ?h k)" by (simp only: det_fn.simps)
  also have "\<dots> = ?h j + (\<Sum>k<?N. ?h (skip j k))"
    by (rule sum_skip[OF Suc.prems])
  also have "(\<Sum>k<?N. ?h (skip j k)) = (\<Sum>k<?N. \<Sum>i<?N. G i k)"
    by (rule sum.cong) (use left in auto)
  also have "\<dots> = (\<Sum>i<?N. \<Sum>k<?N. G i k)"
    by (rule sum.swap)
  also have "\<dots> = (\<Sum>i<?N. (- 1) ^ (Suc i + j) * A (Suc i) j * det_fn ?N (minor_fn A (Suc i) j))"
    by (rule sum.cong) (use right in auto)
  finally have "det_fn (Suc ?N) A = ?h j +
      (\<Sum>i<?N. (- 1) ^ (Suc i + j) * A (Suc i) j * det_fn ?N (minor_fn A (Suc i) j))" .
  also have "\<dots> = (\<Sum>i<Suc ?N. (- 1) ^ (i + j) * A i j * det_fn ?N (minor_fn A i j))"
    by (subst (2) sum.lessThan_Suc_shift) (simp del: det_fn.simps sum.lessThan_Suc)
  finally show ?case .
qed

lemma minor_fn_transpose:
  "minor_fn (\<lambda>i j. A j i) r c = (\<lambda>i j. minor_fn A c r j i)"
  by (intro ext) (simp add: minor_fn_def)

lemma det_fn_transpose: "det_fn n (\<lambda>i j. A j i) = det_fn n A"
proof (induction n arbitrary: A)
  case 0
  then show ?case by simp
next
  case (Suc n)
  have "det_fn (Suc n) (\<lambda>i j. A j i) =
      (\<Sum>k<Suc n. (- 1) ^ k * A k 0 * det_fn n (\<lambda>i j. minor_fn A k 0 j i))"
    by (simp only: det_fn.simps minor_fn_transpose[of A])
  also have "\<dots> = (\<Sum>k<Suc n. (- 1) ^ (k + 0) * A k 0 * det_fn n (minor_fn A k 0))"
  proof (rule sum.cong)
    fix k
    have "det_fn n (\<lambda>i j. minor_fn A k 0 j i) = det_fn n (minor_fn A k 0)"
      by (rule Suc.IH)
    then show "(- 1) ^ k * A k 0 * det_fn n (\<lambda>i j. minor_fn A k 0 j i) =
        (- 1) ^ (k + 0) * A k 0 * det_fn n (minor_fn A k 0)"
      by (simp only: add_0_right)
  qed simp
  also have "\<dots> = det_fn (Suc n) A"
    by (rule det_fn_col_expansion[symmetric]) simp
  finally show ?case .
qed

lemma skip_neq: "skip i c \<noteq> i"
  by (simp add: skip_def)

lemma cofactor_cols:
  assumes "i < Suc n" "j < Suc n"
  shows "(\<Sum>k<Suc n. (- 1) ^ (k + i) * det_fn n (minor_fn A k i) * A k j) =
         (if i = j then det_fn (Suc n) A else 0)"
proof (cases "i = j")
  case True
  have "(\<Sum>k<Suc n. (- 1) ^ (k + i) * det_fn n (minor_fn A k i) * A k i) =
      (\<Sum>k<Suc n. (- 1) ^ (k + i) * A k i * det_fn n (minor_fn A k i))"
    by (rule sum.cong) simp_all
  also have "\<dots> = det_fn (Suc n) A"
    by (rule det_fn_col_expansion[OF assms(1), symmetric])
  finally show ?thesis using True by (simp del: det_fn.simps sum.lessThan_Suc)
next
  case False
  define B where "B r c = (if c = i then A r j else A r c)" for r c
  have m: "minor_fn B k i = minor_fn A k i" for k
    by (intro ext) (simp add: minor_fn_def B_def skip_neq)
  have "det_fn (Suc n) B = 0"
  proof (cases "i < j")
    case True
    show ?thesis
      by (rule det_fn_equal_cols[OF True assms(2)]) (simp add: B_def)
  next
    case False
    with \<open>i \<noteq> j\<close> have "j < i" by simp
    then show ?thesis
      by (rule det_fn_equal_cols[OF _ assms(1)]) (simp add: B_def)
  qed
  moreover have "det_fn (Suc n) B =
      (\<Sum>k<Suc n. (- 1) ^ (k + i) * B k i * det_fn n (minor_fn B k i))"
    by (rule det_fn_col_expansion[OF assms(1)])
  moreover have "B k i = A k j" for k by (simp add: B_def)
  ultimately have "(\<Sum>k<Suc n. (- 1) ^ (k + i) * A k j * det_fn n (minor_fn A k i)) = 0"
    by (simp only: m)
  moreover have "(\<Sum>k<Suc n. (- 1) ^ (k + i) * det_fn n (minor_fn A k i) * A k j) =
      (\<Sum>k<Suc n. (- 1) ^ (k + i) * A k j * det_fn n (minor_fn A k i))"
    by (rule sum.cong) simp_all
  ultimately show ?thesis using False by (simp del: det_fn.simps sum.lessThan_Suc)
qed

lemma cofactor_rows:
  assumes "i < Suc n" "j < Suc n"
  shows "(\<Sum>k<Suc n. A i k * ((- 1) ^ (j + k) * det_fn n (minor_fn A j k))) =
         (if i = j then det_fn (Suc n) A else 0)"
proof -
  have "(\<Sum>k<Suc n. (- 1) ^ (k + j) * det_fn n (minor_fn (\<lambda>i j. A j i) k j) * A i k) =
         (if j = i then det_fn (Suc n) (\<lambda>i j. A j i) else 0)"
    by (rule cofactor_cols[OF assms(2,1), of "\<lambda>i j. A j i"])
  moreover have "det_fn n (minor_fn (\<lambda>i j. A j i) k j) = det_fn n (minor_fn A j k)" for k
    unfolding minor_fn_transpose[of A] by (rule det_fn_transpose)
  moreover have "det_fn (Suc n) (\<lambda>i j. A j i) = det_fn (Suc n) A"
    by (rule det_fn_transpose)
  ultimately have "(\<Sum>k<Suc n. (- 1) ^ (k + j) * det_fn n (minor_fn A j k) * A i k) =
         (if j = i then det_fn (Suc n) A else 0)"
    by (simp only:)
  moreover have "(\<Sum>k<Suc n. A i k * ((- 1) ^ (j + k) * det_fn n (minor_fn A j k))) =
      (\<Sum>k<Suc n. (- 1) ^ (k + j) * det_fn n (minor_fn A j k) * A i k)"
    by (rule sum.cong) (simp_all add: add.commute)
  ultimately show ?thesis
    by (cases "i = j") (auto simp del: det_fn.simps sum.lessThan_Suc)
qed

lemma length_remove_nth: "j < length xs \<Longrightarrow> length (remove_nth j xs) = length xs - 1"
  by (simp add: remove_nth_def)

lemma nth_remove_nth: "j < length xs \<Longrightarrow> c < length xs - 1 \<Longrightarrow> remove_nth j xs ! c = xs ! skip j c"
  by (auto simp: remove_nth_def skip_def nth_append min_def)

lemma square_Cons:
  "square (r # rs) \<longleftrightarrow> length r = Suc (length rs) \<and> (\<forall>row\<in>set rs. length row = Suc (length rs))"
  by (auto simp: square_def list_all_iff)

lemma determinant_expand:
  assumes "square (r # rs)"
  shows "eval env (determinant (r # rs)) =
     (\<Sum>j<length r. (- 1) ^ j * eval env (r ! j) * eval env (determinant (map (remove_nth j) rs)))"
proof (cases rs)
  case Nil
  with assms obtain a where "r = [a]"
    by (cases r) (auto simp: square_Cons)
  with Nil show ?thesis by simp
next
  case (Cons r2 rs2)
  show ?thesis
  proof (cases rs2)
    case Nil
    with Cons assms have "length r = 2" "length r2 = 2" by (auto simp: square_Cons)
    then obtain a b c d where "r = [a, b]" "r2 = [c, d]"
      by (auto simp: length_Suc_conv numeral_2_eq_2)
    with Cons Nil show ?thesis by (simp add: remove_nth_def)
  next
    case (Cons r3 rs3)
    with \<open>rs = r2 # rs2\<close> show ?thesis
      by (simp add: comp_def interv_sum_list_conv_sum_set_nat atLeast0LessThan mult.assoc)
  qed
qed

lemma square_minor_first:
  assumes "square (r # rs)" "j < length r"
  shows "square (map (remove_nth j) rs)"
  using assms by (auto simp: square_Cons square_def list_all_iff length_remove_nth)

lemma eval_determinant:
  "square M \<Longrightarrow> length M = n \<Longrightarrow> eval env (determinant M) = det_fn n (mat_fn env M)"
proof (induction n arbitrary: M)
  case 0
  then show ?case by simp
next
  case (Suc n)
  then obtain r rs where M: "M = r # rs" by (cases M) auto
  have len: "length r = Suc n" "length rs = n" "\<And>row. row \<in> set rs \<Longrightarrow> length row = Suc n"
    using Suc.prems by (auto simp: M square_Cons)
  have minor: "eval env (determinant (map (remove_nth j) rs)) = det_fn n (minor_fn (mat_fn env M) 0 j)"
    if j: "j < Suc n" for j
  proof -
    have "eval env (determinant (map (remove_nth j) rs)) =
        det_fn n (mat_fn env (map (remove_nth j) rs))"
      by (rule Suc.IH) (use square_minor_first[of r rs j] Suc.prems(1) len j in \<open>simp_all add: M\<close>)
    also have "\<dots> = det_fn n (minor_fn (mat_fn env M) 0 j)"
    proof (rule det_fn_cong)
      fix a b assume ab: "a < n" "b < n"
      then have "length (rs ! a) = Suc n" using len by simp
      then show "mat_fn env (map (remove_nth j) rs) a b = minor_fn (mat_fn env M) 0 j a b"
        using ab j len(2)
        by (simp add: mat_fn_def minor_fn_def M nth_remove_nth skip_def)
    qed
    finally show ?thesis .
  qed
  have "eval env (determinant M) =
      (\<Sum>j<Suc n. (- 1) ^ j * eval env (r ! j) * eval env (determinant (map (remove_nth j) rs)))"
    using determinant_expand[of r rs env] Suc.prems(1) len(1) by (simp only: M)
  also have "\<dots> = (\<Sum>j<Suc n. (- 1) ^ j * mat_fn env M 0 j * det_fn n (minor_fn (mat_fn env M) 0 j))"
    by (rule sum.cong) (simp_all add: minor mat_fn_def M del: sum.lessThan_Suc)
  finally show ?case by (simp only: det_fn.simps)
qed

lemma minor_matrix_shape:
  assumes "square M" "length M = Suc n" "i < Suc n" "j < Suc n"
  shows "square (minor_matrix M i j)" "length (minor_matrix M i j) = n"
proof -
  have rows: "length row = Suc n" if "row \<in> set (remove_nth i M)" for row
  proof -
    from that have "row \<in> set M"
      by (auto simp: remove_nth_def dest: in_set_takeD in_set_dropD)
    then show ?thesis using assms(1,2) by (auto simp: square_def list_all_iff)
  qed
  show "length (minor_matrix M i j) = n"
    using assms by (simp add: minor_matrix_def length_remove_nth)
  then show "square (minor_matrix M i j)"
    using rows assms(4)
    by (auto simp: square_def list_all_iff minor_matrix_def length_remove_nth)
qed

lemma minor_matrix_fn:
  assumes "square M" "length M = Suc n" "i < Suc n" "j < Suc n" "a < n" "b < n"
  shows "mat_fn env (minor_matrix M i j) a b = minor_fn (mat_fn env M) i j a b"
proof -
  have 1: "remove_nth i M ! a = M ! skip i a"
    using assms by (simp add: nth_remove_nth)
  have "skip i a < length M" using assms by (simp add: skip_def)
  then have 2: "length (M ! skip i a) = Suc n"
    using square_row[OF assms(1)] assms(2) by simp
  have "a < length (remove_nth i M)" using assms by (simp add: length_remove_nth)
  then show ?thesis
    using assms 1 2 by (simp add: mat_fn_def minor_fn_def minor_matrix_def nth_remove_nth)
qed

lemma eval_cofactor:
  assumes "square M" "length M = Suc n" "i < Suc n" "j < Suc n"
  shows "eval env (cofactor M i j) = (- 1) ^ (i + j) * det_fn n (minor_fn (mat_fn env M) i j)"
proof -
  have "eval env (determinant (minor_matrix M i j)) = det_fn n (mat_fn env (minor_matrix M i j))"
    by (rule eval_determinant[OF minor_matrix_shape[OF assms]])
  also have "\<dots> = det_fn n (minor_fn (mat_fn env M) i j)"
    by (rule det_fn_cong) (rule minor_matrix_fn[OF assms])
  finally show ?thesis by (simp add: cofactor_def)
qed

lemma adjugate_nth:
  assumes "k < length M" "j < length M"
  shows "k < length (adjugate M)" "j < length (adjugate M ! k)"
    "adjugate M ! k ! j = cofactor M j k"
  using assms by (simp_all add: adjugate_def)

lemma eval_inverse_entry:
  assumes "inverse_matrix z M = Inr gi" "length M = Suc n" "k < Suc n" "j < Suc n"
  shows "eval env (gi ! k ! j) =
     (- 1) ^ (j + k) * det_fn n (minor_fn (mat_fn env M) j k)
       * inverse (det_fn (Suc n) (mat_fn env M))"
proof -
  have sq: "square M" using inverse_matrix_Inr(1)[OF assms(1)] .
  have "gi = map (map (\<lambda>a. py_div a (determinant M))) (adjugate M)"
    using assms(1) by (auto simp: inverse_matrix_def Let_def split: if_splits)
  then have "gi ! k ! j = py_div (cofactor M j k) (determinant M)"
    using adjugate_nth[of k M j] assms(2-4) by simp
  then show ?thesis
    using eval_cofactor[OF sq assms(2,4,3), of env] eval_determinant[OF sq assms(2), of env]
    by (simp add: py_div_def pow_value_m1 del: det_fn.simps)
qed

lemma inverse_matrix_right:
  assumes "inverse_matrix z M = Inr gi" "eval env (determinant M) \<noteq> 0"
    "i < length M" "j < length M"
  shows "(\<Sum>k<length M. eval env (M ! i ! k) * eval env (gi ! k ! j)) = (if i = j then 1 else 0)"
proof -
  obtain n where n: "length M = Suc n" using assms(3) by (cases "length M") auto
  have sq: "square M" using inverse_matrix_Inr(1)[OF assms(1)] .
  let ?A = "mat_fn env M"
  have d: "det_fn (Suc n) ?A \<noteq> 0"
    using assms(2) eval_determinant[OF sq n, of env] by (simp del: det_fn.simps)
  have "(\<Sum>k<Suc n. eval env (M ! i ! k) * eval env (gi ! k ! j)) =
      (\<Sum>k<Suc n. ?A i k * ((- 1) ^ (j + k) * det_fn n (minor_fn ?A j k))
         * inverse (det_fn (Suc n) ?A))"
  proof (rule sum.cong)
    fix k assume "k \<in> {..<Suc n}"
    then have "k < Suc n" by simp
    from eval_inverse_entry[OF assms(1) n this, of j env] assms(4) n
    show "eval env (M ! i ! k) * eval env (gi ! k ! j) =
        ?A i k * ((- 1) ^ (j + k) * det_fn n (minor_fn ?A j k)) * inverse (det_fn (Suc n) ?A)"
      by (simp add: mat_fn_def del: det_fn.simps)
  qed simp
  also have "\<dots> = (\<Sum>k<Suc n. ?A i k * ((- 1) ^ (j + k) * det_fn n (minor_fn ?A j k)))
         * inverse (det_fn (Suc n) ?A)"
    by (simp only: sum_distrib_right)
  also have "\<dots> = (if i = j then det_fn (Suc n) ?A else 0) * inverse (det_fn (Suc n) ?A)"
    using cofactor_rows[of i n j ?A] assms(3,4) n by (simp only:)
  also have "\<dots> = (if i = j then 1 else 0)"
    using d by (simp del: det_fn.simps)
  finally show ?thesis by (simp only: n)
qed

lemma inverse_matrix_left:
  assumes "inverse_matrix z M = Inr gi" "eval env (determinant M) \<noteq> 0"
    "i < length M" "j < length M"
  shows "(\<Sum>k<length M. eval env (gi ! i ! k) * eval env (M ! k ! j)) = (if i = j then 1 else 0)"
proof -
  obtain n where n: "length M = Suc n" using assms(3) by (cases "length M") auto
  have sq: "square M" using inverse_matrix_Inr(1)[OF assms(1)] .
  let ?A = "mat_fn env M"
  have d: "det_fn (Suc n) ?A \<noteq> 0"
    using assms(2) eval_determinant[OF sq n, of env] by (simp del: det_fn.simps)
  have "(\<Sum>k<Suc n. eval env (gi ! i ! k) * eval env (M ! k ! j)) =
      (\<Sum>k<Suc n. (- 1) ^ (k + i) * det_fn n (minor_fn ?A k i) * ?A k j
         * inverse (det_fn (Suc n) ?A))"
  proof (rule sum.cong)
    fix k assume "k \<in> {..<Suc n}"
    then have "k < Suc n" by simp
    from eval_inverse_entry[OF assms(1) n _ this, of i env] assms(3) n
    show "eval env (gi ! i ! k) * eval env (M ! k ! j) =
        (- 1) ^ (k + i) * det_fn n (minor_fn ?A k i) * ?A k j * inverse (det_fn (Suc n) ?A)"
      by (simp add: mat_fn_def del: det_fn.simps)
  qed simp
  also have "\<dots> = (\<Sum>k<Suc n. (- 1) ^ (k + i) * det_fn n (minor_fn ?A k i) * ?A k j)
         * inverse (det_fn (Suc n) ?A)"
    by (simp only: sum_distrib_right)
  also have "\<dots> = (if i = j then det_fn (Suc n) ?A else 0) * inverse (det_fn (Suc n) ?A)"
    using cofactor_cols[of i n j ?A] assms(3,4) n by (simp only:)
  also have "\<dots> = (if i = j then 1 else 0)"
    using d by (simp del: det_fn.simps)
  finally show ?thesis by (simp only: n)
qed

section \<open>The Christoffel symbols\<close>

text \<open>
  Claim C1. For a successfully constructed Metric and indices \<open>mu\<close>, \<open>rho\<close>, \<open>sigma\<close>
  in \<open>[0, dim)\<close>, \<^verbatim>\<open>compute_christoffel(mu, rho, sigma)\<close> returns an expression, and at
  every point its value is one half of the sum, over \<open>nu\<close> in \<open>[0, dim)\<close>, of
  \<open>g_inv[mu, nu] * (d_rho g[nu, sigma] + d_sigma g[nu, rho] - d_nu g[rho, sigma])\<close>, where
  \<open>d_k X\<close> is \<open>X\<close> differentiated with respect to \<open>coordinates[k]\<close>.
\<close>

theorem christoffel_formula:
  assumes "Metric_init iszerofunc g0 coordinates0 = Inr m"
    and "mu < dim m" and "rho < dim m" and "sigma < dim m"
  shows "\<exists>c. compute_christoffel m (int mu) (int rho) (int sigma) = Inr c \<and>
           (\<forall>env. eval env c =
              1 / 2 * (\<Sum>nu<dim m.
                 eval env (g_inv m ! mu ! nu) *
                   (eval env (differentiate (g m ! nu ! sigma) (coordinates m ! rho))
                    + eval env (differentiate (g m ! nu ! rho) (coordinates m ! sigma))
                    - eval env (differentiate (g m ! rho ! sigma) (coordinates m ! nu)))))"
proof -
  from Metric_init_christoffel[OF assms] obtain c
    where c: "compute_christoffel m (int mu) (int rho) (int sigma) = Inr c" ..
  have "\<forall>env. eval env c = 1 / 2 * (\<Sum>nu<dim m. christoffel_term m env mu rho sigma nu)"
    using compute_christoffel_eval[OF c] by blast
  then show ?thesis using c unfolding christoffel_term_def by blast
qed

text \<open>
  The theorem at the one-dimensional metric \<open>g = [[x ** 2]]\<close> in the coordinate \<open>x\<close>: the
  symbol is \<open>1/2 * (1 / x ** 2) * (2 x + 2 x - 2 x) = 1 / x\<close>, which is \<open>1/2\<close> at
  \<open>x = 2\<close>.
\<close>

theorem christoffel_formula_witness:
  "\<exists>m c. Metric_init syntactic_zero [[Pow (Symbol ''x'') (Constant 2)]] [''x''] = Inr m \<and>
     compute_christoffel m 0 0 0 = Inr c \<and> eval (\<lambda>s. 2) c = 1 / 2"
proof -
  have "\<exists>m. Metric_init syntactic_zero [[Pow (Symbol ''x'') (Constant 2)]] [''x''] = Inr m"
    by (rule Metric_init_total) (simp_all add: square_def syntactic_zero_def)
  then obtain m
    where m: "Metric_init syntactic_zero [[Pow (Symbol ''x'') (Constant 2)]] [''x''] = Inr m" ..
  note f = Metric_init_fields[OF m]
  have "inverse_matrix syntactic_zero [[Pow (Symbol ''x'') (Constant 2)]] =
      Inr [[Mul [Mul [Constant 1, Constant 1],
                 Pow (Pow (Symbol ''x'') (Constant 2)) (Constant (- 1))]]]"
    by (simp add: inverse_matrix_def square_def syntactic_zero_def adjugate_def cofactor_def
        minor_matrix_def remove_nth_def py_div_def Let_def)
  with f(5) have gi: "g_inv m =
      [[Mul [Mul [Constant 1, Constant 1],
             Pow (Pow (Symbol ''x'') (Constant 2)) (Constant (- 1))]]]"
    by simp
  from christoffel_formula[OF m, of 0 0 0] obtain c
    where c: "compute_christoffel m 0 0 0 = Inr c"
      and v: "eval (\<lambda>s. 2) c = 1 / 2 * (\<Sum>nu<dim m.
                 eval (\<lambda>s. 2) (g_inv m ! 0 ! nu) *
                   (eval (\<lambda>s. 2) (differentiate (g m ! nu ! 0) (coordinates m ! 0))
                    + eval (\<lambda>s. 2) (differentiate (g m ! nu ! 0) (coordinates m ! 0))
                    - eval (\<lambda>s. 2) (differentiate (g m ! 0 ! 0) (coordinates m ! nu))))"
    by (auto simp: f(3))
  have "eval (\<lambda>s. 2) c = 1 / 2"
    unfolding v by (simp add: f(1-3) gi pow_value_simps)
  with m c show ?thesis by blast
qed

text \<open>
  Claim C4, as amended. The Christoffel symbols are symmetric in the lower index pair for
  the index pairs at which the matrix itself is symmetric, \<open>g[rho, sigma] = g[sigma, rho]\<close>:
  then \<^verbatim>\<open>compute_christoffel(mu, rho, sigma)\<close> and
  \<^verbatim>\<open>compute_christoffel(mu, sigma, rho)\<close> both return and have the same value at every
  point. The constructor does not require a symmetric matrix.
\<close>

theorem christoffel_symmetric:
  assumes "Metric_init iszerofunc g0 coordinates0 = Inr m"
    and "mu < dim m" and "rho < dim m" and "sigma < dim m"
    and "g m ! rho ! sigma = g m ! sigma ! rho"
  shows "\<exists>c1 c2. compute_christoffel m (int mu) (int rho) (int sigma) = Inr c1 \<and>
           compute_christoffel m (int mu) (int sigma) (int rho) = Inr c2 \<and>
           (\<forall>env. eval env c1 = eval env c2)"
proof -
  from Metric_init_christoffel[OF assms(1-4)] obtain c1
    where c1: "compute_christoffel m (int mu) (int rho) (int sigma) = Inr c1" ..
  from Metric_init_christoffel[OF assms(1,2,4,3)] obtain c2
    where c2: "compute_christoffel m (int mu) (int sigma) (int rho) = Inr c2" ..
  have "eval env c1 = eval env c2" for env
    using compute_christoffel_eval[OF c1, of env] compute_christoffel_eval[OF c2, of env]
    by (simp add: christoffel_term_sym[OF assms(5)])
  with c1 c2 show ?thesis by blast
qed

text \<open>
  The theorem at the plane in polar coordinates, \<open>g = [[1, 0], [0, r ** 2]]\<close> in the
  coordinates \<open>r, theta\<close>: the symbols \<open>(1, 0, 1)\<close> and \<open>(1, 1, 0)\<close> are both \<open>1 / r\<close>,
  which is \<open>1/2\<close> at \<open>r = 2\<close>.
\<close>

theorem christoffel_symmetric_witness:
  "\<exists>m c1 c2.
     Metric_init syntactic_zero
       [[Constant 1, Constant 0], [Constant 0, Pow (Symbol ''r'') (Constant 2)]]
       [''r'', ''theta''] = Inr m \<and>
     compute_christoffel m 1 0 1 = Inr c1 \<and> compute_christoffel m 1 1 0 = Inr c2 \<and>
     eval (\<lambda>s. 2) c1 = 1 / 2 \<and> eval (\<lambda>s. 2) c2 = 1 / 2"
proof -
  obtain m where m: "Metric_init syntactic_zero
       [[Constant 1, Constant 0], [Constant 0, Pow (Symbol ''r'') (Constant 2)]]
       [''r'', ''theta''] = Inr m"
    and f: "g m = [[Constant 1, Constant 0], [Constant 0, Pow (Symbol ''r'') (Constant 2)]]"
      "coordinates m = [''r'', ''theta'']" "dim m = 2"
    and gi: "g_inv m = projr (inverse_matrix syntactic_zero
       [[Constant 1, Constant 0], [Constant 0, Pow (Symbol ''r'') (Constant 2)]])"
    by (rule Metric_init_example[OF _ _ _ _ polar_inverse, of "[''r'', ''theta'']"])
      (simp_all add: square_def syntactic_zero_def polar_inverse)
  from christoffel_symmetric[OF m, of 1 0 1] obtain c1 c2
    where c: "compute_christoffel m 1 0 1 = Inr c1" "compute_christoffel m 1 1 0 = Inr c2"
      and eq: "eval (\<lambda>s. 2) c1 = eval (\<lambda>s. 2) c2"
    by (auto simp: f)
  have "eval (\<lambda>s. 2) c1 = 1 / 2"
    using compute_christoffel_eval[of m 1 0 1 c1 "\<lambda>s. 2"] c(1)
    by (simp add: f gi polar_inverse christoffel_term_def pow_value_simps numeral_2_eq_2)
  with m c eq show ?thesis by auto
qed

text \<open>
  Claim C4 as stated fails for a matrix that is not symmetric. For
  \<open>g = [[1, x], [0, 1]]\<close> in the coordinates \<open>x, y\<close> the inverse is \<open>[[1, -x], [0, 1]]\<close>;
  at the origin \<^verbatim>\<open>compute_christoffel(0, 0, 1)\<close> has the value
  \<open>1/2 * (d_y g[0,0] + d_x g[0,1] - d_x g[0,1]) = 0\<close> and
  \<^verbatim>\<open>compute_christoffel(0, 1, 0)\<close> the value
  \<open>1/2 * (d_x g[0,1] + d_y g[0,0] - d_x g[1,0]) = 1/2\<close>.
\<close>

theorem christoffel_symmetric_counterexample:
  "christoffel_at origin
     (Metric_init syntactic_zero
        [[Constant 1, Symbol ''x''], [Constant 0, Constant 1]] [''x'', ''y'']) 0 0 1 = Inr 0 \<and>
   christoffel_at origin
     (Metric_init syntactic_zero
        [[Constant 1, Symbol ''x''], [Constant 0, Constant 1]] [''x'', ''y'']) 0 1 0 = Inr (1 / 2)"
proof -
  have inv: "inverse_matrix syntactic_zero [[Constant 1, Symbol ''x''], [Constant 0, Constant 1]] =
    Inr (projr (inverse_matrix syntactic_zero [[Constant 1, Symbol ''x''], [Constant 0, Constant 1]]))"
    by (simp add: inverse_defs)
  obtain m where m: "Metric_init syntactic_zero
        [[Constant 1, Symbol ''x''], [Constant 0, Constant 1]] [''x'', ''y''] = Inr m"
    and f: "g m = [[Constant 1, Symbol ''x''], [Constant 0, Constant 1]]"
      "coordinates m = [''x'', ''y'']" "dim m = 2"
      "g_inv m = projr (inverse_matrix syntactic_zero
        [[Constant 1, Symbol ''x''], [Constant 0, Constant 1]])"
    by (rule Metric_init_example[OF _ _ _ _ inv, of "[''x'', ''y'']"])
      (simp_all add: square_def syntactic_zero_def)
  have gi: "g_inv m = [[Mul [Mul [Constant 1, Constant 1],
              Pow (Add [Mul [Constant 1, Constant 1],
                        Neg (Mul [Symbol ''x'', Constant 0])]) (Constant (- 1))],
         Mul [Mul [Constant (- 1), Symbol ''x''],
              Pow (Add [Mul [Constant 1, Constant 1],
                        Neg (Mul [Symbol ''x'', Constant 0])]) (Constant (- 1))]],
        [Mul [Mul [Constant (- 1), Constant 0],
              Pow (Add [Mul [Constant 1, Constant 1],
                        Neg (Mul [Symbol ''x'', Constant 0])]) (Constant (- 1))],
         Mul [Mul [Constant 1, Constant 1],
              Pow (Add [Mul [Constant 1, Constant 1],
                        Neg (Mul [Symbol ''x'', Constant 0])]) (Constant (- 1))]]]"
    unfolding f(4) by (simp add: inverse_defs upt_rec)
  show ?thesis
    unfolding m
    by (simp add: christoffel_at_def query_defs f(1-3) gi origin_def upt_rec pow_value_simps)
qed

section \<open>The geodesic right-hand sides\<close>

text \<open>
  Claim C2. For a successfully constructed Metric the field \<^verbatim>\<open>geodesic_rhs\<close> is the list
  the constructor computed with \<^verbatim>\<open>compute_geodesic_rhs\<close> for the indices \<open>0, ..., dim - 1\<close>,
  it has \<open>dim\<close> entries, and for \<open>mu\<close> in \<open>[0, dim)\<close> the value of the entry \<open>mu\<close> at every
  point is minus the double sum, over \<open>rho\<close> and \<open>sigma\<close> in \<open>[0, dim)\<close>, of the Christoffel
  symbol \<open>(mu, rho, sigma)\<close> times \<open>velocities[rho]\<close> times \<open>velocities[sigma]\<close>.
\<close>

theorem geodesic_rhs_formula:
  assumes "Metric_init iszerofunc g0 coordinates0 = Inr m" and "mu < dim m"
  shows "comprehension (compute_geodesic_rhs m) (py_range (dim m)) = Inr (geodesic_rhs m) \<and>
         length (geodesic_rhs m) = dim m \<and>
         (\<exists>Gamma.
            (\<forall>rho<dim m. \<forall>sigma<dim m.
               compute_christoffel m (int mu) (int rho) (int sigma) = Inr (Gamma rho sigma)) \<and>
            (\<forall>env. eval env (geodesic_rhs m ! mu) =
               - (\<Sum>rho<dim m. \<Sum>sigma<dim m.
                    eval env (Gamma rho sigma)
                      * env (velocities m ! rho) * env (velocities m ! sigma))))"
proof -
  define Gamma where
    "Gamma rho sigma = projr (compute_christoffel m (int mu) (int rho) (int sigma))"
    for rho sigma
  have "compute_christoffel m (int mu) (int rho) (int sigma) = Inr (Gamma rho sigma)"
    if "rho < dim m" "sigma < dim m" for rho sigma
    using Metric_init_christoffel[OF assms that] by (auto simp: Gamma_def)
  moreover have "\<forall>env. eval env (geodesic_rhs m ! mu) =
               - (\<Sum>rho<dim m. \<Sum>sigma<dim m.
                    eval env (Gamma rho sigma)
                      * env (velocities m ! rho) * env (velocities m ! sigma))"
    using compute_geodesic_rhs_eval[OF Metric_init_rhs(2)[OF assms]]
    by (simp add: Gamma_def)
  ultimately show ?thesis
    using Metric_init_fields(6)[OF assms(1)] Metric_init_rhs(1)[OF assms] by blast
qed

text \<open>
  The theorem at the plane in polar coordinates: the radial right-hand side is
  \<open>r * u1 ** 2\<close>, which is 18 at \<open>r = 2\<close>, \<open>u1 = 3\<close>.
\<close>

theorem geodesic_rhs_formula_witness:
  "\<exists>m. Metric_init syntactic_zero
       [[Constant 1, Constant 0], [Constant 0, Pow (Symbol ''r'') (Constant 2)]]
       [''r'', ''theta''] = Inr m \<and>
     length (geodesic_rhs m) = 2 \<and>
     eval (\<lambda>s. if s = ''u1'' then 3 else 2) (geodesic_rhs m ! 0) = 18"
proof -
  let ?env = "\<lambda>s. if s = ''u1'' then 3 else (2::real)"
  obtain m where m: "Metric_init syntactic_zero
       [[Constant 1, Constant 0], [Constant 0, Pow (Symbol ''r'') (Constant 2)]]
       [''r'', ''theta''] = Inr m"
    and f: "g m = [[Constant 1, Constant 0], [Constant 0, Pow (Symbol ''r'') (Constant 2)]]"
      "coordinates m = [''r'', ''theta'']" "dim m = 2"
      "velocities m = [''u0'', ''u1'', ''u2'', ''u3'']"
    and gi: "g_inv m = projr (inverse_matrix syntactic_zero
       [[Constant 1, Constant 0], [Constant 0, Pow (Symbol ''r'') (Constant 2)]])"
    by (rule Metric_init_example[OF _ _ _ _ polar_inverse, of "[''r'', ''theta'']"])
      (simp_all add: square_def syntactic_zero_def polar_inverse)
  from geodesic_rhs_formula[OF m, of 0] obtain Gamma
    where len: "length (geodesic_rhs m) = 2"
      and G: "\<And>rho sigma. rho < 2 \<Longrightarrow> sigma < 2 \<Longrightarrow>
               compute_christoffel m (int 0) (int rho) (int sigma) = Inr (Gamma rho sigma)"
      and v: "eval ?env (geodesic_rhs m ! 0) =
               - (\<Sum>rho<2. \<Sum>sigma<2.
                    eval ?env (Gamma rho sigma)
                      * ?env (velocities m ! rho) * ?env (velocities m ! sigma))"
    by (auto simp: f(3))
  have t: "eval ?env (Gamma rho sigma) =
      1 / 2 * (\<Sum>nu<2. christoffel_term m ?env 0 rho sigma nu)"
    if "rho < 2" "sigma < 2" for rho sigma
    using compute_christoffel_eval[OF G[OF that], of ?env] by (simp add: f(3))
  have "eval ?env (geodesic_rhs m ! 0) = 18"
    unfolding v
    by (simp add: t f gi polar_inverse christoffel_term_def pow_value_simps numeral_2_eq_2)
  with m len show ?thesis by blast
qed

section \<open>Construction\<close>

text \<open>
  Claim C5, as amended. A coordinate list longer than the side of the matrix makes the
  construction fail: with the error of the inversion when the matrix is not square or is
  singular, and with an index error otherwise. A coordinate list shorter than the side is
  not rejected: the construction succeeds whenever the matrix is square and invertible
  (and there are at most four coordinates), and \<open>dim\<close> is the length of the list.
\<close>

theorem dimension_mismatch:
  "(length g0 < length coordinates0 \<longrightarrow>
      Metric_init iszerofunc g0 coordinates0 =
        Inl (if \<not> square g0 then NonSquareMatrix
             else if iszerofunc (determinant g0) then SingularMatrix else IndexError)) \<and>
   (length coordinates0 < length g0 \<and> square g0 \<and> \<not> iszerofunc (determinant g0)
      \<and> length coordinates0 \<le> 4 \<longrightarrow>
      (\<exists>m. Metric_init iszerofunc g0 coordinates0 = Inr m \<and> dim m = length coordinates0))"
proof (intro conjI impI)
  assume less: "length g0 < length coordinates0"
  have "\<not> (\<exists>m. Metric_init iszerofunc g0 coordinates0 = Inr m)"
    unfolding Metric_init_iff using less by simp
  then obtain e where e: "Metric_init iszerofunc g0 coordinates0 = Inl e"
    by (cases "Metric_init iszerofunc g0 coordinates0") auto
  from Metric_init_error[OF e] e
  show "Metric_init iszerofunc g0 coordinates0 =
        Inl (if \<not> square g0 then NonSquareMatrix
             else if iszerofunc (determinant g0) then SingularMatrix else IndexError)"
    by simp
next
  assume a: "length coordinates0 < length g0 \<and> square g0 \<and> \<not> iszerofunc (determinant g0)
      \<and> length coordinates0 \<le> 4"
  then have "\<exists>m. Metric_init iszerofunc g0 coordinates0 = Inr m"
    unfolding Metric_init_iff by simp
  then obtain m where m: "Metric_init iszerofunc g0 coordinates0 = Inr m" ..
  with Metric_init_fields(3)[OF m]
  show "\<exists>m. Metric_init iszerofunc g0 coordinates0 = Inr m \<and> dim m = length coordinates0"
    by blast
qed

text \<open>
  The theorem at a 1 x 1 matrix with two coordinates (an index error), and at a 2 x 2
  matrix with one coordinate (a Metric of dimension 1).
\<close>

theorem dimension_mismatch_witness:
  "Metric_init syntactic_zero [[Constant 1]] [''x'', ''y''] = Inl IndexError \<and>
   (\<exists>m. Metric_init syntactic_zero
           [[Constant 1, Constant 0], [Constant 0, Pow (Symbol ''r'') (Constant 2)]] [''r'']
         = Inr m \<and> dim m = 1)"
  using dimension_mismatch[of "[[Constant 1]]" "[''x'', ''y'']" syntactic_zero]
    dimension_mismatch[of
      "[[Constant 1, Constant 0], [Constant 0, Pow (Symbol ''r'') (Constant 2)]]" "[''r'']"
      syntactic_zero]
  by (simp add: square_def syntactic_zero_def)

text \<open>
  Claim C5 as stated fails: the 2 x 2 identity matrix with the single coordinate \<open>x\<close> has
  a side different from the number of coordinates, and the constructor returns a Metric,
  of dimension 1.
\<close>

theorem dimension_mismatch_counterexample:
  "map_sum id dim
     (Metric_init syntactic_zero
        [[Constant 1, Constant 0], [Constant 0, Constant 1]] [''x'']) = Inr 1"
proof -
  have "\<exists>m. Metric_init syntactic_zero
        [[Constant 1, Constant 0], [Constant 0, Constant 1]] [''x''] = Inr m"
    by (rule Metric_init_total) (simp_all add: square_def syntactic_zero_def)
  then obtain m where m: "Metric_init syntactic_zero
        [[Constant 1, Constant 0], [Constant 0, Constant 1]] [''x''] = Inr m" ..
  show ?thesis unfolding m using Metric_init_fields(3)[OF m] by simp
qed

text \<open>
  Claim C6. For a square matrix whose determinant the zero test takes for the zero
  expression, the inversion fails with the singular-matrix error and so does the
  construction: the error is that of the inversion, the first step of the constructor, and
  no object is returned.
\<close>

theorem singular_metric_fails:
  assumes "square g0" and "iszerofunc (determinant g0)"
  shows "inverse_matrix iszerofunc g0 = Inl SingularMatrix \<and>
         Metric_init iszerofunc g0 coordinates0 = Inl SingularMatrix"
  using assms by (simp add: inverse_matrix_def Metric_init_def)

text \<open>
  The theorem at a matrix with two equal rows, with the zero test that evaluates at the
  origin.
\<close>

theorem singular_metric_fails_witness:
  "Metric_init (\<lambda>e. eval origin e = 0)
     [[Symbol ''x'', Constant 1], [Symbol ''x'', Constant 1]] [''x'', ''y'']
   = Inl SingularMatrix"
  using singular_metric_fails[of "[[Symbol ''x'', Constant 1], [Symbol ''x'', Constant 1]]"
      "\<lambda>e. eval origin e = 0" "[''x'', ''y'']"]
  by (simp add: square_def origin_def)

text \<open>
  Claim C8, as amended. The velocities of a constructed Metric over \<open>n\<close> coordinates are
  always the ordered sequence of exactly four symbols, named \<open>u0, u1, u2, u3\<close> and pairwise
  distinct, whatever \<open>n\<close> is; and \<open>n\<close> is at most 4: with more than four coordinates the
  construction fails, with an index error when the matrix is square and not taken for
  singular (with the error of the inversion otherwise). No freshness is guaranteed: the
  velocities need not be distinct from the coordinate symbols.
\<close>

theorem velocities_fixed:
  "(\<forall>m. Metric_init iszerofunc g0 coordinates0 = Inr m \<longrightarrow>
        velocities m = [''u0'', ''u1'', ''u2'', ''u3''] \<and> length (velocities m) = 4 \<and>
        distinct (velocities m) \<and> dim m = length coordinates0 \<and> dim m \<le> 4) \<and>
   (4 < length coordinates0 \<longrightarrow>
      Metric_init iszerofunc g0 coordinates0 =
        Inl (if \<not> square g0 then NonSquareMatrix
             else if iszerofunc (determinant g0) then SingularMatrix else IndexError)) \<and>
   (\<exists>z g1 cs m. Metric_init z g1 cs = Inr m \<and> velocities m ! 0 \<in> set (coordinates m))"
proof (intro conjI allI impI)
  fix m assume m: "Metric_init iszerofunc g0 coordinates0 = Inr m"
  show "velocities m = [''u0'', ''u1'', ''u2'', ''u3'']"
    using Metric_init_fields(4)[OF m] .
  then show "length (velocities m) = 4" "distinct (velocities m)" by simp_all
  show "dim m = length coordinates0" using Metric_init_fields(3)[OF m] .
  show "dim m \<le> 4" using Metric_init_dim_le_4[OF m] .
next
  assume more: "4 < length coordinates0"
  have "\<not> (\<exists>m. Metric_init iszerofunc g0 coordinates0 = Inr m)"
    unfolding Metric_init_iff using more by simp
  then obtain e where e: "Metric_init iszerofunc g0 coordinates0 = Inl e"
    by (cases "Metric_init iszerofunc g0 coordinates0") auto
  from Metric_init_error[OF e] e
  show "Metric_init iszerofunc g0 coordinates0 =
        Inl (if \<not> square g0 then NonSquareMatrix
             else if iszerofunc (determinant g0) then SingularMatrix else IndexError)"
    by simp
next
  have "\<exists>m. Metric_init syntactic_zero [[Constant 1]] [''u0''] = Inr m"
    by (rule Metric_init_total) (simp_all add: square_def syntactic_zero_def)
  then obtain m where m: "Metric_init syntactic_zero [[Constant 1]] [''u0''] = Inr m" ..
  have "velocities m ! 0 \<in> set (coordinates m)"
    using Metric_init_fields(2,4)[OF m] by simp
  with m show "\<exists>z g1 cs m. Metric_init z g1 cs = Inr m \<and> velocities m ! 0 \<in> set (coordinates m)"
    by blast
qed

text \<open>
  The theorem at the plane in polar coordinates (two coordinates, four velocities), and
  at the 5 x 5 identity matrix with five coordinates (an index error).
\<close>

theorem velocities_fixed_witness:
  "(\<exists>m. Metric_init syntactic_zero
       [[Constant 1, Constant 0], [Constant 0, Pow (Symbol ''r'') (Constant 2)]]
       [''r'', ''theta''] = Inr m \<and>
     velocities m = [''u0'', ''u1'', ''u2'', ''u3''] \<and> dim m = 2) \<and>
   Metric_init syntactic_zero
     [[Constant 1, Constant 0, Constant 0, Constant 0, Constant 0],
      [Constant 0, Constant 1, Constant 0, Constant 0, Constant 0],
      [Constant 0, Constant 0, Constant 1, Constant 0, Constant 0],
      [Constant 0, Constant 0, Constant 0, Constant 1, Constant 0],
      [Constant 0, Constant 0, Constant 0, Constant 0, Constant 1]]
     [''v'', ''w'', ''x'', ''y'', ''z''] = Inl IndexError"
proof -
  obtain m where m: "Metric_init syntactic_zero
       [[Constant 1, Constant 0], [Constant 0, Pow (Symbol ''r'') (Constant 2)]]
       [''r'', ''theta''] = Inr m"
    by (rule Metric_init_example[OF _ _ _ _ polar_inverse, of "[''r'', ''theta'']"])
      (simp_all add: square_def syntactic_zero_def polar_inverse)
  from velocities_fixed[of syntactic_zero
      "[[Constant 1, Constant 0], [Constant 0, Pow (Symbol ''r'') (Constant 2)]]"
      "[''r'', ''theta'']"] m
  have 1: "velocities m = [''u0'', ''u1'', ''u2'', ''u3''] \<and> dim m = 2" by simp
  have 2: "Metric_init syntactic_zero
     [[Constant 1, Constant 0, Constant 0, Constant 0, Constant 0],
      [Constant 0, Constant 1, Constant 0, Constant 0, Constant 0],
      [Constant 0, Constant 0, Constant 1, Constant 0, Constant 0],
      [Constant 0, Constant 0, Constant 0, Constant 1, Constant 0],
      [Constant 0, Constant 0, Constant 0, Constant 0, Constant 1]]
     [''v'', ''w'', ''x'', ''y'', ''z''] = Inl IndexError"
    using velocities_fixed[of syntactic_zero
     "[[Constant 1, Constant 0, Constant 0, Constant 0, Constant 0],
      [Constant 0, Constant 1, Constant 0, Constant 0, Constant 0],
      [Constant 0, Constant 0, Constant 1, Constant 0, Constant 0],
      [Constant 0, Constant 0, Constant 0, Constant 1, Constant 0],
      [Constant 0, Constant 0, Constant 0, Constant 0, Constant 1]]"
     "[''v'', ''w'', ''x'', ''y'', ''z'']"]
    by (simp add: square_def syntactic_zero_def)
  from m 1 2 show ?thesis by blast
qed

text \<open>
  Claim C8 as stated fails: for the 1 x 1 matrix \<open>[[1]]\<close> with the single coordinate named
  \<open>u0\<close> the Metric has four velocities, not one, and the first of them is the coordinate.
\<close>

theorem velocities_fixed_counterexample:
  "map_sum id velocities (Metric_init syntactic_zero [[Constant 1]] [''u0''])
     = Inr [''u0'', ''u1'', ''u2'', ''u3''] \<and>
   map_sum id coordinates (Metric_init syntactic_zero [[Constant 1]] [''u0''])
     = Inr [''u0'']"
proof -
  have "\<exists>m. Metric_init syntactic_zero [[Constant 1]] [''u0''] = Inr m"
    by (rule Metric_init_total) (simp_all add: square_def syntactic_zero_def)
  then obtain m where m: "Metric_init syntactic_zero [[Constant 1]] [''u0''] = Inr m" ..
  show ?thesis unfolding m using Metric_init_fields(2,4)[OF m] by simp
qed

section \<open>Queries with indices out of range\<close>

text \<open>
  Claim C7, as amended. For a constructed Metric with at least one coordinate,
  \<^verbatim>\<open>compute_christoffel(mu, rho, sigma)\<close> fails, with an index error, exactly when \<open>rho\<close>
  or \<open>sigma\<close> lies outside \<open>[-dim, dim)\<close> or \<open>mu\<close> lies outside \<open>[-side, side)\<close>, where
  \<open>side\<close>, the side of the matrix, is at least \<open>dim\<close>; and \<^verbatim>\<open>geodesic_rhs[mu]\<close> fails
  exactly when \<open>mu\<close> lies outside \<open>[-dim, dim)\<close>. Negative indices inside these ranges are
  accepted and count from the end: when the side is \<open>dim\<close>, the query returns what it
  returns at the indices increased by \<open>dim\<close>.
\<close>

theorem index_out_of_range:
  assumes "Metric_init iszerofunc g0 coordinates0 = Inr m" and "0 < dim m"
  shows "(if index_ok (length (g m)) mu \<and> index_ok (dim m) rho \<and> index_ok (dim m) sigma
          then \<exists>c. compute_christoffel m mu rho sigma = Inr c
          else compute_christoffel m mu rho sigma = Inl IndexError) \<and>
         py_index (geodesic_rhs m) mu =
           (if index_ok (dim m) mu then Inr (geodesic_rhs m ! wrap (dim m) mu)
            else Inl IndexError) \<and>
         dim m \<le> length (g m) \<and>
         (length (g m) = dim m \<and> index_ok (dim m) mu \<and> index_ok (dim m) rho
            \<and> index_ok (dim m) sigma \<longrightarrow>
          compute_christoffel m mu rho sigma =
            compute_christoffel m (int (wrap (dim m) mu)) (int (wrap (dim m) rho))
              (int (wrap (dim m) sigma)))"
proof -
  note sh = Metric_init_shaped[OF assms(1)]
  note le = Metric_init_dim_le[OF assms(1)]
  have 1: "if index_ok (length (g m)) mu \<and> index_ok (dim m) rho \<and> index_ok (dim m) sigma
          then \<exists>c. compute_christoffel m mu rho sigma = Inr c
          else compute_christoffel m mu rho sigma = Inl IndexError"
  proof (cases "compute_christoffel m mu rho sigma")
    case (Inl e)
    with compute_christoffel_IndexError[OF Inl] compute_christoffel_shaped[OF sh le assms(2), of mu rho sigma]
    show ?thesis by auto
  next
    case (Inr c)
    with compute_christoffel_shaped[OF sh le assms(2), of mu rho sigma]
    show ?thesis by auto
  qed
  have 2: "py_index (geodesic_rhs m) mu =
           (if index_ok (dim m) mu then Inr (geodesic_rhs m ! wrap (dim m) mu)
            else Inl IndexError)"
    using Metric_init_rhs(1)[OF assms] by (simp add: py_index_eq)
  have 3: "compute_christoffel m mu rho sigma =
            compute_christoffel m (int (wrap (dim m) mu)) (int (wrap (dim m) rho))
              (int (wrap (dim m) sigma))"
    if "length (g m) = dim m" "index_ok (dim m) mu" "index_ok (dim m) rho"
      "index_ok (dim m) sigma"
    unfolding compute_christoffel_def christoffel_body_wrap[OF sh that] ..
  from 1 2 3 le show ?thesis by blast
qed

text \<open>The theorem at the one-dimensional metric \<open>g = [[x ** 2]]\<close>.\<close>

theorem index_out_of_range_witness:
  "\<exists>m. Metric_init syntactic_zero [[Pow (Symbol ''x'') (Constant 2)]] [''x''] = Inr m \<and>
     compute_christoffel m 1 0 0 = Inl IndexError \<and>
     compute_christoffel m 0 0 (- 2) = Inl IndexError \<and>
     py_index (geodesic_rhs m) 1 = Inl IndexError \<and>
     compute_christoffel m (- 1) (- 1) (- 1) = compute_christoffel m 0 0 0"
proof -
  have "\<exists>m. Metric_init syntactic_zero [[Pow (Symbol ''x'') (Constant 2)]] [''x''] = Inr m"
    by (rule Metric_init_total) (simp_all add: square_def syntactic_zero_def)
  then obtain m
    where m: "Metric_init syntactic_zero [[Pow (Symbol ''x'') (Constant 2)]] [''x''] = Inr m" ..
  note f = Metric_init_fields(1,3)[OF m]
  have d: "0 < dim m" "dim m = 1" "length (g m) = 1" by (simp_all add: f)
  from index_out_of_range[OF m d(1), of 1 0 0] index_out_of_range[OF m d(1), of 0 0 "- 2"]
    index_out_of_range[OF m d(1), of "- 1" "- 1" "- 1"]
  have "compute_christoffel m 1 0 0 = Inl IndexError \<and>
     compute_christoffel m 0 0 (- 2) = Inl IndexError \<and>
     py_index (geodesic_rhs m) 1 = Inl IndexError \<and>
     compute_christoffel m (- 1) (- 1) (- 1) = compute_christoffel m 0 0 0"
    by (simp add: d(2,3) index_ok_def wrap_def)
  with m show ?thesis by blast
qed

text \<open>
  Claim C7 as stated fails at negative indices: for the 1 x 1 matrix \<open>[[1]]\<close> in the
  coordinate \<open>x\<close>, \<^verbatim>\<open>compute_christoffel(-1, -1, -1)\<close> returns an expression (of value
  0), not an error, and so does \<^verbatim>\<open>geodesic_rhs[-1]\<close>, the last entry of a Python list.
\<close>

theorem index_out_of_range_counterexample:
  "christoffel_at origin (Metric_init syntactic_zero [[Constant 1]] [''x''])
     (- 1) (- 1) (- 1) = Inr 0 \<and>
   geodesic_rhs_at origin (Metric_init syntactic_zero [[Constant 1]] [''x'']) (- 1) = Inr 0"
proof -
  have inv: "inverse_matrix syntactic_zero [[Constant 1]] =
      Inr [[Mul [Mul [Constant 1, Constant 1], Pow (Constant 1) (Constant (- 1))]]]"
    by (simp add: inverse_defs)
  obtain m where m: "Metric_init syntactic_zero [[Constant 1]] [''x''] = Inr m"
    and f: "g m = [[Constant 1]]" "coordinates m = [''x'']" "dim m = length [''x'']"
      "g_inv m = [[Mul [Mul [Constant 1, Constant 1], Pow (Constant 1) (Constant (- 1))]]]"
    by (rule Metric_init_example[OF _ _ _ _ inv, of "[''x'']"])
      (simp_all add: square_def syntactic_zero_def)
  have 1: "christoffel_at origin (Inr m) (- 1) (- 1) (- 1) = Inr 0"
    by (simp add: christoffel_at_def query_defs f origin_def pow_value_simps)
  have d: "0 < dim m" by (simp add: f)
  have "eval origin (geodesic_rhs m ! 0) = 0"
    using compute_geodesic_rhs_eval[OF Metric_init_rhs(2)[OF m d], of origin]
    by (simp add: f origin_def)
  then have 2: "geodesic_rhs_at origin (Inr m) (- 1) = Inr 0"
    using Metric_init_rhs(1)[OF m d]
    by (simp add: geodesic_rhs_at_def py_index_def f)
  from 1 2 show ?thesis unfolding m ..
qed

section \<open>The presets\<close>

text \<open>
  Claim C9. When the zero test of the inversion is sound (it takes no expression for zero
  that has a nonzero value somewhere), \<^verbatim>\<open>getMetric("kerr")\<close> and
  \<^verbatim>\<open>getMetric("schwarzschild")\<close> both return: a Metric of dimension 4 with the
  coordinates \<open>t, r, theta, phi\<close> and the matrix of the preset, together with the symbol
  lists \<open>t, r, theta, phi, M, a\<close> and \<open>t, r, theta, phi, M\<close>.
\<close>

theorem presets_constructed:
  assumes "\<forall>e. iszerofunc e \<longrightarrow> (\<forall>env. eval env e = 0)"
  shows "\<exists>kerr schwarzschild.
           getMetric iszerofunc ''kerr'' =
             Inr (kerr, [''t'', ''r'', ''theta'', ''phi'', ''M'', ''a'']) \<and>
           dim kerr = 4 \<and> coordinates kerr = [''t'', ''r'', ''theta'', ''phi''] \<and>
           g kerr = kerr_g \<and>
           getMetric iszerofunc ''schwarzschild'' =
             Inr (schwarzschild, [''t'', ''r'', ''theta'', ''phi'', ''M'']) \<and>
           dim schwarzschild = 4 \<and>
           coordinates schwarzschild = [''t'', ''r'', ''theta'', ''phi''] \<and>
           g schwarzschild = schwarzschild_g"
proof -
  have "\<exists>m. Metric_init iszerofunc kerr_g [''t'', ''r'', ''theta'', ''phi''] = Inr m"
    unfolding Metric_init_iff
    using sound_not_zero(1)[OF assms] square_kerr_g by simp
  then obtain k where k: "Metric_init iszerofunc kerr_g [''t'', ''r'', ''theta'', ''phi''] = Inr k" ..
  have "\<exists>m. Metric_init iszerofunc schwarzschild_g [''t'', ''r'', ''theta'', ''phi''] = Inr m"
    unfolding Metric_init_iff
    using sound_not_zero(2)[OF assms] square_schwarzschild_g by simp
  then obtain s
    where s: "Metric_init iszerofunc schwarzschild_g [''t'', ''r'', ''theta'', ''phi''] = Inr s" ..
  show ?thesis
    using Metric_init_fields(1-3)[OF k] Metric_init_fields(1-3)[OF s]
    by (simp add: getMetric_cases k s)
qed

text \<open>The theorem with the syntactic zero test.\<close>

theorem presets_constructed_witness:
  "\<exists>kerr schwarzschild.
     getMetric syntactic_zero ''kerr'' =
       Inr (kerr, [''t'', ''r'', ''theta'', ''phi'', ''M'', ''a'']) \<and>
     dim kerr = 4 \<and>
     getMetric syntactic_zero ''schwarzschild'' =
       Inr (schwarzschild, [''t'', ''r'', ''theta'', ''phi'', ''M'']) \<and>
     dim schwarzschild = 4"
proof -
  have "\<forall>e. syntactic_zero e \<longrightarrow> (\<forall>env. eval env e = 0)"
    by (simp add: syntactic_zero_def)
  from presets_constructed[OF this] show ?thesis by blast
qed



section \<open>The inverse\<close>

text \<open>
  Claim C3. For a successfully constructed Metric, at every point where the determinant of
  \<open>g\<close> is not zero, \<open>g_inv\<close> is the two-sided inverse of \<open>g\<close>: for all \<open>i\<close>, \<open>j\<close> below
  the side of \<open>g\<close> (which is at least \<open>dim\<close>), the sum over \<open>k\<close> of
  \<open>g[i,k] * g_inv[k,j]\<close> has the value 1 when \<open>i = j\<close> and 0 otherwise, and so has the sum
  of \<open>g_inv[i,k] * g[k,j]\<close>.
\<close>

theorem inverse_correct:
  assumes "Metric_init iszerofunc g0 coordinates0 = Inr m"
    and "eval env (determinant (g m)) \<noteq> 0"
    and "i < length (g m)" and "j < length (g m)"
  shows "(\<Sum>k<length (g m). eval env (g m ! i ! k) * eval env (g_inv m ! k ! j))
           = (if i = j then 1 else 0) \<and>
         (\<Sum>k<length (g m). eval env (g_inv m ! i ! k) * eval env (g m ! k ! j))
           = (if i = j then 1 else 0) \<and>
         dim m \<le> length (g m)"
proof -
  have inv: "inverse_matrix iszerofunc (g m) = Inr (g_inv m)"
    using Metric_init_fields(1,5)[OF assms(1)] by simp
  from inverse_matrix_right[OF inv assms(2-4)] inverse_matrix_left[OF inv assms(2-4)]
    Metric_init_dim_le[OF assms(1)]
  show ?thesis by blast
qed

text \<open>
  The theorem at the plane in polar coordinates, at \<open>r = 2\<close>: the entry \<open>(1, 1)\<close> of
  \<open>g * g_inv\<close> is \<open>r ** 2 * (1 / r ** 2) = 1\<close>, the entry \<open>(0, 1)\<close> is 0.
\<close>

theorem inverse_correct_witness:
  "\<exists>m. Metric_init syntactic_zero
       [[Constant 1, Constant 0], [Constant 0, Pow (Symbol ''r'') (Constant 2)]]
       [''r'', ''theta''] = Inr m \<and>
     (\<Sum>k<2. eval (\<lambda>s. 2) (g m ! 1 ! k) * eval (\<lambda>s. 2) (g_inv m ! k ! 1)) = 1 \<and>
     (\<Sum>k<2. eval (\<lambda>s. 2) (g m ! 0 ! k) * eval (\<lambda>s. 2) (g_inv m ! k ! 1)) = 0"
proof -
  obtain m where m: "Metric_init syntactic_zero
       [[Constant 1, Constant 0], [Constant 0, Pow (Symbol ''r'') (Constant 2)]]
       [''r'', ''theta''] = Inr m"
    and f: "g m = [[Constant 1, Constant 0], [Constant 0, Pow (Symbol ''r'') (Constant 2)]]"
    by (rule Metric_init_example[OF _ _ _ _ polar_inverse, of "[''r'', ''theta'']"])
      (simp_all add: square_def syntactic_zero_def)
  have d: "eval (\<lambda>s. 2) (determinant (g m)) \<noteq> 0"
    by (simp add: f pow_value_simps)
  have l: "length (g m) = 2" by (simp add: f)
  from inverse_correct[OF m d, of 1 1] inverse_correct[OF m d, of 0 1]
  have "(\<Sum>k<2. eval (\<lambda>s. 2) (g m ! 1 ! k) * eval (\<lambda>s. 2) (g_inv m ! k ! 1)) = 1 \<and>
     (\<Sum>k<2. eval (\<lambda>s. 2) (g m ! 0 ! k) * eval (\<lambda>s. 2) (g_inv m ! k ! 1)) = 0"
    by (simp add: l)
  with m show ?thesis by blast
qed

end
